theory Spec2Isabelle
  imports Main "HOL-Library.AList"
begin

section \<open>Shallow embedding of nessus\_compliance\_parser\_v3.py\<close>

text \<open>
  Python strings are modelled as \<^typ>\<open>string\<close> (lists of characters; a character
  of the model is one of 256 values, a Python character any code point, and the
  functions below treat all characters other than blank and line feed alike),
  Python's unbounded integers as \<^typ>\<open>int\<close>, Python dictionaries as association
  lists that keep insertion order and have distinct keys, and exceptions as the left
  summand of a sum type.
\<close>

subsection \<open>Exceptions and Python containers\<close>

datatype error =
    AttributeError      \<comment> \<open>attribute access on \<open>None\<close>\<close>
  | TypeError           \<comment> \<open>\<open>+\<close> between incompatible values\<close>
  | KeyError            \<comment> \<open>subscript of a dictionary with a missing key\<close>
  | IndexError          \<comment> \<open>subscript of a list out of range\<close>
  | UnboundLocalError   \<comment> \<open>read of a local variable that was never assigned\<close>
  | ParseError          \<comment> \<open>\<open>ET.parse\<close> on a file that is not well-formed XML\<close>

type_synonym ('k, 'v) dict = "('k \<times> 'v) list"

text \<open>\<open>d[k]\<close>: the value stored under \<open>k\<close>, or \<open>KeyError\<close>.\<close>

definition dict_get :: "('k, 'v) dict \<Rightarrow> 'k \<Rightarrow> error + 'v" where
  "dict_get d k = (case map_of d k of None \<Rightarrow> Inl KeyError | Some v \<Rightarrow> Inr v)"

text \<open>\<open>d[k] = v\<close>: an existing key keeps its position, a new key goes to the end.\<close>

definition dict_set :: "('k, 'v) dict \<Rightarrow> 'k \<Rightarrow> 'v \<Rightarrow> ('k, 'v) dict" where
  "dict_set d k v = AList.update k v d"

text \<open>\<open>d.keys()\<close>, in insertion order.\<close>

definition dict_keys :: "('k, 'v) dict \<Rightarrow> 'k list" where
  "dict_keys d = map fst d"

text \<open>\<open>xs[i]\<close> for a non-negative literal index \<open>i\<close>.\<close>

definition list_get :: "'a list \<Rightarrow> nat \<Rightarrow> error + 'a" where
  "list_get xs i = (if i < length xs then Inr (xs ! i) else Inl IndexError)"

subsection \<open>Module constants\<close>

definition WKS_HEADERS :: "string list" where
  "WKS_HEADERS = [''Check'', ''Result'', ''Description'', ''Policy Value'',
     ''Actual Value'', ''Remediation'', ''Profile'', ''Reference'']"

definition SUMM_HEADERS :: "string list" where
  "SUMM_HEADERS = [''No.'', ''IP'', ''Benchmark'', ''Passed'', ''Failed'', ''Warning'', ''Total'']"


definition check_name_tag :: string where
  "check_name_tag = ''{http://www.nessus.org/cm}compliance-check-name''"

definition result_tag :: string where
  "result_tag = ''{http://www.nessus.org/cm}compliance-result''"

definition info_tag :: string where
  "info_tag = ''{http://www.nessus.org/cm}compliance-info''"

definition policy_value_tag :: string where
  "policy_value_tag = ''{http://www.nessus.org/cm}compliance-policy-value''"

definition actual_value_tag :: string where
  "actual_value_tag = ''{http://www.nessus.org/cm}compliance-actual-value''"

definition solution_tag :: string where
  "solution_tag = ''{http://www.nessus.org/cm}compliance-solution''"

definition benchmark_profile_tag :: string where
  "benchmark_profile_tag = ''{http://www.nessus.org/cm}compliance-benchmark-profile''"

definition see_also_tag :: string where
  "see_also_tag = ''{http://www.nessus.org/cm}compliance-see-also''"

definition benchmark_name_tag :: string where
  "benchmark_name_tag = ''{http://www.nessus.org/cm}compliance-benchmark-name''"

definition benchmark_version_tag :: string where
  "benchmark_version_tag = ''{http://www.nessus.org/cm}compliance-benchmark-version''"

definition COMPLIANCE_TAGS :: "string list" where
  "COMPLIANCE_TAGS = [check_name_tag, result_tag, info_tag, policy_value_tag,
     actual_value_tag, solution_tag, benchmark_profile_tag, see_also_tag]"

subsection \<open>\<open>get_value\<close>: cleaning the text of a tag\<close>

definition is_space :: "char \<Rightarrow> bool" where
  "is_space c = (c = CHR '' '')"

text \<open>\<open>s.replace('\n', '\t')\<close>: every line feed becomes a tab.\<close>

definition replace_nl :: "string \<Rightarrow> string" where
  "replace_nl s = map (\<lambda>c. if c = CHR 0x0A then CHR 0x09 else c) s"

text \<open>\<open>s.strip(' ')\<close>: the blanks at both ends go.\<close>

definition strip_sp :: "string \<Rightarrow> string" where
  "strip_sp s = rev (dropWhile is_space (rev (dropWhile is_space s)))"

text \<open>
  \<open>re.sub(' {2,}', ' ', s)\<close>: scanning from the left, a maximal run of two or more
  blanks that starts at the current position is replaced by one blank and the scan
  resumes behind the run; any other character is copied.
\<close>

function re_sub_spaces :: "string \<Rightarrow> string" where
  "re_sub_spaces [] = []"
| "re_sub_spaces (c # cs) =
     (if 2 \<le> length (takeWhile is_space (c # cs))
      then CHR '' '' # re_sub_spaces (dropWhile is_space (c # cs))
      else c # re_sub_spaces cs)"
  by pat_completeness auto
termination
proof (relation "measure length")
  show "wf (measure length)" by simp
next
  fix c :: char and cs :: string
  assume "2 \<le> length (takeWhile is_space (c # cs))"
  moreover have "length (takeWhile is_space (c # cs)) + length (dropWhile is_space (c # cs))
      = length (c # cs)"
    by (metis length_append takeWhile_dropWhile_id)
  ultimately show "(dropWhile is_space (c # cs), c # cs) \<in> measure length"
    by simp
next
  fix c :: char and cs :: string
  show "(cs, c # cs) \<in> measure length" by simp
qed

definition cut_marker :: string where
  "cut_marker = '' [Text Cut Due To Length]''"

definition get_value :: "string \<Rightarrow> string" where
  "get_value rawValue =
     (let cleanValue = strip_sp (replace_nl rawValue);
          cleanValue = re_sub_spaces cleanValue
      in if length cleanValue > 32000
         then take 32000 cleanValue @ cut_marker
         else cleanValue)"

text \<open>
  \<open>get_value(elem.text)\<close>: the text of an element without content is \<open>None\<close>, and
  \<open>None.replace\<close> raises.
\<close>

definition get_value_text :: "string option \<Rightarrow> error + string" where
  "get_value_text rawValue =
     (case rawValue of None \<Rightarrow> Inl AttributeError | Some s \<Rightarrow> Inr (get_value s))"

subsection \<open>The parsed report\<close>

text \<open>
  An XML element as far as the program reads it: its tag and its text. A
  \<open>ReportItem\<close> is the list of its child elements in document order; a
  \<open>ReportHost\<close> is the result of looking up its \<open>host-ip\<close> property (\<open>None\<close> when
  there is no such element, otherwise that element's text) and the list of its
  \<open>ReportItem\<close> children.
\<close>

datatype element = Element (elem_tag: string) (elem_text: "string option")

type_synonym item = "element list"

datatype report_host = ReportHost (host_ip: "string option option") (report_items: "item list")

text \<open>\<open>item.find(t)\<close>: the first child with tag \<open>t\<close>, or \<open>None\<close>.\<close>

definition item_find :: "item \<Rightarrow> string \<Rightarrow> element option" where
  "item_find item t = find (\<lambda>e. elem_tag e = t) item"

text \<open>What the program prints: a line of text, or the keys of a dictionary.\<close>

datatype out_line = Line string | Keys "string list"

text \<open>A value stored in a summary list or written to a spreadsheet cell.\<close>

datatype cell = S string | N int | Blank

definition bind_e :: "error + 'a \<Rightarrow> ('a \<Rightarrow> error + 'b) \<Rightarrow> error + 'b" where
  "bind_e m f = (case m of Inl e \<Rightarrow> Inl e | Inr x \<Rightarrow> f x)"

subsection \<open>\<open>handle_report\<close>\<close>

text \<open>
  The local variables of \<open>handle_report\<close> that live across iterations of its loop.
  \<open>issue_list\<close> is unbound until the first assignment; \<open>hr_printed\<close> collects what
  the function prints.
\<close>

record hr_state =
  summary_dict :: "(string, int) dict"
  ip_issues :: "string list list"
  benchmark_name :: string
  issue_list :: "string list option"
  hr_printed :: "out_line list"

definition hr_init :: hr_state where
  "hr_init = \<lparr> summary_dict = [(''FAILED'', 0), (''PASSED'', 0), (''WARNING'', 0), (''ERROR'', 0)],
               ip_issues = [], benchmark_name = [], issue_list = None, hr_printed = [] \<rparr>"

text \<open>
  The dictionary comprehension of line 147:
  \<open>{elem.tag: get_value(elem.text) for elem in item if elem.tag in COMPLIANCE_TAGS}\<close>.
\<close>

fun issue_dict_of :: "item \<Rightarrow> (string, string) dict \<Rightarrow> error + (string, string) dict" where
  "issue_dict_of [] d = Inr d"
| "issue_dict_of (e # es) d =
     (if elem_tag e \<in> set COMPLIANCE_TAGS
      then bind_e (get_value_text (elem_text e)) (\<lambda>v. issue_dict_of es (dict_set d (elem_tag e) v))
      else issue_dict_of es d)"

text \<open>
  The right-hand side of line 151:
  \<open>item.find(name).text + ' v' + item.find(version).text\<close>, evaluated left to right.
\<close>

definition benchmark_of :: "item \<Rightarrow> error + string" where
  "benchmark_of item =
     (case item_find item benchmark_name_tag of
        None \<Rightarrow> Inl AttributeError
      | Some n \<Rightarrow>
         (case elem_text n of
            None \<Rightarrow> Inl TypeError
          | Some nt \<Rightarrow>
             (case item_find item benchmark_version_tag of
                None \<Rightarrow> Inl AttributeError
              | Some v \<Rightarrow>
                 (case elem_text v of
                    None \<Rightarrow> Inl TypeError
                  | Some vt \<Rightarrow> Inr (nt @ '' v'' @ vt)))))"

text \<open>Lines 150-151.\<close>

definition set_benchmark :: "item \<Rightarrow> hr_state \<Rightarrow> error + hr_state" where
  "set_benchmark item st =
     (if length (ip_issues st) = 1 \<and> benchmark_name st = []
      then bind_e (benchmark_of item) (\<lambda>b. Inr (st\<lparr>benchmark_name := b\<rparr>))
      else Inr st)"

text \<open>Lines 159-160.\<close>

definition default_actual :: "(string, string) dict \<Rightarrow> (string, string) dict" where
  "default_actual issue_dict =
     (if actual_value_tag \<notin> set (dict_keys issue_dict)
      then dict_set issue_dict actual_value_tag ''No output recorded''
      else issue_dict)"

text \<open>\<open>[issue_dict[tag] for tag in COMPLIANCE_TAGS]\<close>.\<close>

fun lookup_all :: "(string, string) dict \<Rightarrow> string list \<Rightarrow> error + string list" where
  "lookup_all d [] = Inr []"
| "lookup_all d (t # ts) =
     bind_e (dict_get d t) (\<lambda>v. bind_e (lookup_all d ts) (\<lambda>vs. Inr (v # vs)))"

text \<open>
  Lines 161-167. Only \<open>KeyError\<close> raised by the list comprehension is caught; the
  handler prints the keys and falls through to the \<open>append\<close>, which then reads
  whatever \<open>issue_list\<close> held before.
\<close>

definition count_and_append :: "(string, string) dict \<Rightarrow> hr_state \<Rightarrow> error + hr_state" where
  "count_and_append issue_dict st =
     (if length (dict_keys issue_dict) = length COMPLIANCE_TAGS
      then
        bind_e (dict_get issue_dict result_tag) (\<lambda>r.
        bind_e (dict_get (summary_dict st) r) (\<lambda>n.
          let st = st\<lparr>summary_dict := dict_set (summary_dict st) r (n + 1)\<rparr>;
              st = (case lookup_all issue_dict COMPLIANCE_TAGS of
                      Inr l \<Rightarrow> st\<lparr>issue_list := Some l\<rparr>
                    | Inl e \<Rightarrow> st\<lparr>hr_printed := hr_printed st @ [Keys (dict_keys issue_dict)]\<rparr>)
          in (case issue_list st of
                None \<Rightarrow> Inl UnboundLocalError
              | Some l \<Rightarrow> Inr (st\<lparr>ip_issues := ip_issues st @ [l]\<rparr>))))
      else Inr st)"

text \<open>One iteration of the loop over the \<open>ReportItem\<close>s (lines 143-167).\<close>

definition handle_item :: "item \<Rightarrow> hr_state \<Rightarrow> error + hr_state" where
  "handle_item item st =
     bind_e (issue_dict_of item []) (\<lambda>issue_dict.
     bind_e (set_benchmark item st) (\<lambda>st.
       count_and_append (default_actual issue_dict) st))"

fun handle_items :: "item list \<Rightarrow> hr_state \<Rightarrow> error + hr_state" where
  "handle_items [] st = Inr st"
| "handle_items (item # rest) st = bind_e (handle_item item st) (handle_items rest)"

text \<open>Line 169.\<close>

definition summary_counts_of :: "hr_state \<Rightarrow> error + cell list" where
  "summary_counts_of st =
     bind_e (dict_get (summary_dict st) ''PASSED'') (\<lambda>p.
     bind_e (dict_get (summary_dict st) ''FAILED'') (\<lambda>f.
     bind_e (dict_get (summary_dict st) ''WARNING'') (\<lambda>w.
     bind_e (dict_get (summary_dict st) ''ERROR'') (\<lambda>e.
       Inr [S (benchmark_name st), N p, N f, N w, N e]))))"

text \<open>
  \<open>handle_report\<close> returns the pair \<open>(ip_issues, summary_counts)\<close>; the model returns
  with it what the call printed.
\<close>

definition handle_report ::
    "report_host \<Rightarrow> error + (string list list \<times> cell list) \<times> out_line list" where
  "handle_report report =
     bind_e (handle_items (report_items report) hr_init) (\<lambda>st.
     bind_e (summary_counts_of st) (\<lambda>summary_counts.
       Inr ((ip_issues st, summary_counts), hr_printed st)))"

subsection \<open>\<open>get_total\<close> and \<open>write_excel_report\<close>\<close>

text \<open>Python's \<open>+\<close> on the values a summary list can hold.\<close>

fun py_add :: "cell \<Rightarrow> cell \<Rightarrow> error + cell" where
  "py_add (N a) (N b) = Inr (N (a + b))"
| "py_add (S a) (S b) = Inr (S (a @ b))"
| "py_add _ _ = Inl TypeError"

text \<open>
  Line 34: \<open>ip_summary[1] + ip_summary[2] + (ip_summary[3]+ip_summary[4])\<close>.
\<close>

definition get_total :: "cell list \<Rightarrow> error + cell" where
  "get_total ip_summary =
     bind_e (list_get ip_summary 1) (\<lambda>a.
     bind_e (list_get ip_summary 2) (\<lambda>b.
     bind_e (py_add a b) (\<lambda>ab.
     bind_e (list_get ip_summary 3) (\<lambda>c.
     bind_e (list_get ip_summary 4) (\<lambda>d.
     bind_e (py_add c d) (\<lambda>cd.
       py_add ab cd))))))"

text \<open>
  A worksheet is the table of its cells, addressed by (row, column); a later write to
  a cell replaces an earlier one. Cell formats and column widths are left out. A
  workbook is its file name and its worksheets in the order they were added; the
  spreadsheet library's checks on worksheet names, and its reading of strings that
  look like formulas or links, are outside the model.
\<close>

type_synonym sheet = "nat \<times> nat \<rightharpoonup> cell"

record workbook =
  wb_name :: string
  wb_sheets :: "(string \<times> sheet) list"

definition sheet_write :: "sheet \<Rightarrow> nat \<Rightarrow> nat \<Rightarrow> cell \<Rightarrow> sheet" where
  "sheet_write sh r c v = sh((r, c) \<mapsto> v)"

text \<open>\<open>for i in range(len(xs)): sh.write(row, i + off, xs[i])\<close>.\<close>

fun write_cells :: "sheet \<Rightarrow> nat \<Rightarrow> nat \<Rightarrow> cell list \<Rightarrow> sheet" where
  "write_cells sh row col [] = sh"
| "write_cells sh row col (v # vs) = write_cells (sheet_write sh row col v) row (Suc col) vs"

text \<open>A host address is a string, or \<open>None\<close> when the \<open>host-ip\<close> element has no text.\<close>

type_synonym ip = "string option"

definition ip_cell :: "ip \<Rightarrow> cell" where
  "ip_cell a = (case a of None \<Rightarrow> Blank | Some s \<Rightarrow> S s)"

definition ip_str :: "ip \<Rightarrow> string" where
  "ip_str a = (case a of None \<Rightarrow> ''None'' | Some s \<Rightarrow> s)"

text \<open>Lines 67-76: one row of the Summary sheet per key of the summary dictionary.\<close>

fun write_summary_rows ::
    "(ip, cell list) dict \<Rightarrow> ip list \<Rightarrow> nat \<Rightarrow> sheet \<Rightarrow> error + sheet" where
  "write_summary_rows summary_d [] row summ = Inr summ"
| "write_summary_rows summary_d (ip # ips) row summ =
     (let summ = sheet_write summ row 0 (N (int row));
          summ = sheet_write summ row 1 (ip_cell ip)
      in bind_e (dict_get summary_d ip) (\<lambda>ip_summary.
         let summ = write_cells summ row 2 ip_summary
         in bind_e (get_total ip_summary) (\<lambda>total.
            write_summary_rows summary_d ips (row + 1) (sheet_write summ row 6 total))))"

text \<open>Lines 98-102: the rows of one host's sheet.\<close>

fun write_issue_rows :: "string list list \<Rightarrow> nat \<Rightarrow> sheet \<Rightarrow> sheet" where
  "write_issue_rows [] row sh = sh"
| "write_issue_rows (issue # rest) row sh =
     write_issue_rows rest (row + 1) (write_cells sh row 0 (map S issue))"

text \<open>Lines 81-102: one sheet per key of the issues dictionary.\<close>

fun write_issue_sheets ::
    "(ip, string list list) dict \<Rightarrow> ip list \<Rightarrow> error + (string \<times> sheet) list" where
  "write_issue_sheets issues_d [] = Inr []"
| "write_issue_sheets issues_d (ip_address # rest) =
     bind_e (dict_get issues_d ip_address) (\<lambda>issues.
       let ip_sheet = write_cells Map.empty 0 0 (map S WKS_HEADERS);
           ip_sheet = write_issue_rows issues 1 ip_sheet
       in bind_e (write_issue_sheets issues_d rest) (\<lambda>sheets.
            Inr ((ip_str ip_address @ '' Issues'', ip_sheet) # sheets)))"

definition write_excel_report ::
    "string \<Rightarrow> (ip, cell list) dict \<Rightarrow> (ip, string list list) dict
       \<Rightarrow> error + workbook \<times> out_line list" where
  "write_excel_report workbook_name summary_d issues_d =
     (let summ = write_cells Map.empty 0 0 (map S SUMM_HEADERS)
      in bind_e (write_summary_rows summary_d (dict_keys summary_d) 1 summ) (\<lambda>summ.
         bind_e (write_issue_sheets issues_d (dict_keys issues_d)) (\<lambda>sheets.
           Inr (\<lparr> wb_name = workbook_name, wb_sheets = (''Summary'', summ) # sheets \<rparr>,
                [Line ''Done writing to workbook!'']))))"

subsection \<open>The main program\<close>

text \<open>
  What \<open>ET.parse\<close> followed by \<open>findall('./Report/ReportHost')\<close> gives for a path:
  an \<open>IOError\<close> when the file cannot be opened or read, a parse error when it is not
  XML, and otherwise the host records of the document.
\<close>

datatype parse_result = IOError | NotXML | Parsed "report_host list"

text \<open>
  How a run ends: \<open>exit()\<close> after the diagnostic, an uncaught exception, or the
  workbook written. \<open>Exited\<close> and \<open>Finished\<close> carry everything printed; only the
  last produces a workbook.
\<close>

datatype outcome = Exited "out_line list" | Crashed error | Finished workbook "out_line list"

record main_state =
  summary_dict_all :: "(ip, cell list) dict"
  ip_issues_dict :: "(ip, string list list) dict"
  stdout :: "out_line list"

definition main_init :: main_state where
  "main_init = \<lparr> summary_dict_all = [], ip_issues_dict = [], stdout = [] \<rparr>"

text \<open>Lines 196-201: the loop over the host records of one file.\<close>

fun handle_hosts :: "report_host list \<Rightarrow> main_state \<Rightarrow> error + main_state" where
  "handle_hosts [] st = Inr st"
| "handle_hosts (report # rest) st =
     (case host_ip report of
        None \<Rightarrow> Inl AttributeError
      | Some ip_address \<Rightarrow>
          (let st = st\<lparr>stdout := stdout st @ [Line (''Extracting issues for IP '' @ ip_str ip_address)]\<rparr>
           in bind_e (handle_report report) (\<lambda>((res, summary_res), printed).
                handle_hosts rest
                  (st\<lparr> stdout := stdout st @ printed,
                       ip_issues_dict := dict_set (ip_issues_dict st) ip_address res,
                       summary_dict_all := dict_set (summary_dict_all st) ip_address summary_res \<rparr>))))"

text \<open>
  Lines 188-201: the loop over the input files. It ends the run at the first file
  that cannot be read (\<open>exit()\<close> after the diagnostic) or at the first uncaught
  exception; otherwise it hands on the two dictionaries.
\<close>

fun scan_files :: "(string \<Rightarrow> parse_result) \<Rightarrow> string list \<Rightarrow> main_state \<Rightarrow> outcome + main_state" where
  "scan_files fs [] st = Inr st"
| "scan_files fs (nessusScan # rest) st =
     (case fs nessusScan of
        IOError \<Rightarrow> Inl (Exited (stdout st @ [Line (''Could not find file \"'' @ nessusScan @ ''\"'')]))
      | NotXML \<Rightarrow> Inl (Crashed ParseError)
      | Parsed reports \<Rightarrow>
          (case handle_hosts reports st of
             Inl e \<Rightarrow> Inl (Crashed e)
           | Inr st \<Rightarrow> scan_files fs rest st))"

text \<open>
  Lines 183-205, after the command line has been parsed into the list of input
  paths (\<open>nargs='+'\<close>) and the output path.
\<close>

definition main :: "(string \<Rightarrow> parse_result) \<Rightarrow> string list \<Rightarrow> string \<Rightarrow> outcome" where
  "main fs nessus_xml output_wb =
     (case scan_files fs nessus_xml main_init of
        Inl out \<Rightarrow> out
      | Inr st \<Rightarrow>
          (case write_excel_report output_wb (summary_dict_all st) (ip_issues_dict st) of
             Inl e \<Rightarrow> Crashed e
           | Inr (wb, printed) \<Rightarrow> Finished wb (stdout st @ printed @ [Line ''Done!''])))"

text \<open>The workbook a run leaves behind, if any.\<close>

definition written :: "outcome \<Rightarrow> workbook option" where
  "written out = (case out of Finished wb _ \<Rightarrow> Some wb | _ \<Rightarrow> None)"

subsection \<open>Notions used to state the properties\<close>

text \<open>The value of \<open>cleanValue\<close> when line 118 tests its length.\<close>

definition normalized_form :: "string \<Rightarrow> string" where
  "normalized_form rawValue = re_sub_spaces (strip_sp (replace_nl rawValue))"

text \<open>No two adjacent blanks.\<close>

fun no_dbl :: "string \<Rightarrow> bool" where
  "no_dbl [] = True"
| "no_dbl [a] = True"
| "no_dbl (a # b # cs) = ((a \<noteq> CHR '' '' \<or> b \<noteq> CHR '' '') \<and> no_dbl (b # cs))"

text \<open>No line feed, no two adjacent blanks, no blank at either end.\<close>

definition clean :: "string \<Rightarrow> bool" where
  "clean s \<longleftrightarrow>
     CHR 0x0A \<notin> set s \<and> no_dbl s \<and> (s = [] \<or> hd s \<noteq> CHR '' '' \<and> last s \<noteq> CHR '' '')"

text \<open>The entry has a child element with tag \<open>t\<close>.\<close>

definition has_field :: "item \<Rightarrow> string \<Rightarrow> bool" where
  "has_field item t \<longleftrightarrow> t \<in> elem_tag ` set item"

text \<open>Every child element with a recognized tag has text.\<close>

definition fields_have_text :: "item \<Rightarrow> bool" where
  "fields_have_text item \<longleftrightarrow>
     (\<forall>e\<in>set item. elem_tag e \<in> set COMPLIANCE_TAGS \<longrightarrow> elem_text e \<noteq> None)"

text \<open>The cleaned text of the last child element with tag \<open>t\<close>.\<close>

definition item_field :: "item \<Rightarrow> string \<Rightarrow> string option" where
  "item_field item t =
     (case find (\<lambda>e. elem_tag e = t) (rev item) of
        None \<Rightarrow> None
      | Some e \<Rightarrow> map_option get_value (elem_text e))"

text \<open>The test of line 161 on the dictionary built from the entry.\<close>

definition accepted :: "item \<Rightarrow> bool" where
  "accepted item \<longleftrightarrow>
     (case issue_dict_of item [] of
        Inl e \<Rightarrow> False
      | Inr d \<Rightarrow> length (dict_keys (default_actual d)) = length COMPLIANCE_TAGS)"

text \<open>The entry that follows the first accepted entry, if there is one.\<close>

definition benchmark_entry :: "item list \<Rightarrow> item option" where
  "benchmark_entry items =
     (case dropWhile (\<lambda>i. \<not> accepted i) items of
        a # b # rest \<Rightarrow> Some b
      | _ \<Rightarrow> None)"

text \<open>The row an accepted entry contributes: its eight fields in the order of
  \<open>COMPLIANCE_TAGS\<close>, a field without value shown as the sentinel.\<close>

definition issue_row :: "item \<Rightarrow> string list" where
  "issue_row item =
     map (\<lambda>t. case item_field item t of Some v \<Rightarrow> v | None \<Rightarrow> ''No output recorded'')
       COMPLIANCE_TAGS"

text \<open>The host records of the input files in the order the program meets them.\<close>

definition all_reports :: "(string \<Rightarrow> parse_result) \<Rightarrow> string list \<Rightarrow> report_host list" where
  "all_reports fs files =
     concat (map (\<lambda>f. case fs f of Parsed reports \<Rightarrow> reports | _ \<Rightarrow> []) files)"

text \<open>The cell at a row and column of the Summary sheet.\<close>

definition summary_cell :: "workbook \<Rightarrow> nat \<Rightarrow> nat \<Rightarrow> cell option" where
  "summary_cell wb row col =
     (case map_of (wb_sheets wb) ''Summary'' of None \<Rightarrow> None | Some summ \<Rightarrow> summ (row, col))"

text \<open>The progress line the program prints for a host record (line 198).\<close>

definition progress_line :: "report_host \<Rightarrow> out_line" where
  "progress_line report =
     Line (''Extracting issues for IP '' @ (case host_ip report of None \<Rightarrow> [] | Some a \<Rightarrow> ip_str a))"

subsection \<open>Example inputs\<close>

text \<open>A compliance finding with all eight recognized fields and benchmark metadata.\<close>

definition finding :: "string \<Rightarrow> string \<Rightarrow> string \<Rightarrow> string \<Rightarrow> item" where
  "finding name result bname bver =
     [Element check_name_tag (Some name), Element result_tag (Some result),
      Element info_tag (Some ''info''), Element policy_value_tag (Some ''policy''),
      Element actual_value_tag (Some ''actual''), Element solution_tag (Some ''fix''),
      Element benchmark_profile_tag (Some ''L1''), Element see_also_tag (Some ''ref''),
      Element benchmark_name_tag (Some bname), Element benchmark_version_tag (Some bver)]"

text \<open>An entry of another kind: no compliance fields, benchmark metadata only.\<close>

definition other_entry :: "string \<Rightarrow> string \<Rightarrow> item" where
  "other_entry bname bver =
     [Element ''description'' (Some ''plugin output''),
      Element benchmark_name_tag (Some bname), Element benchmark_version_tag (Some bver)]"


text \<open>A finding without an actual value.\<close>

definition no_actual_entry :: item where
  "no_actual_entry =
     [Element check_name_tag (Some ''1.1.1 Ensure mounting of cramfs is disabled''),
      Element result_tag (Some ''FAILED''),
      Element info_tag (Some ''info''), Element policy_value_tag (Some ''policy''),
      Element solution_tag (Some ''fix''), Element benchmark_profile_tag (Some ''L1''),
      Element see_also_tag (Some ''ref'')]"

text \<open>Host records: an accepted finding followed by an entry of another kind; the same
  with a second finding behind; a finding with an empty description element; a later
  scan of the first host; a host with one PASSED and one ERROR finding.\<close>

definition one_finding_report :: report_host where
  "one_finding_report =
     ReportHost (Some (Some ''10.0.0.1''))
       [finding ''c1'' ''PASSED'' ''A'' ''1'', other_entry ''X'' ''2'']"

definition two_findings_report :: report_host where
  "two_findings_report =
     ReportHost (Some (Some ''10.0.0.1''))
       [finding ''c1'' ''PASSED'' ''A'' ''1'', other_entry ''X'' ''2'',
        finding ''c2'' ''FAILED'' ''B'' ''3'']"

definition empty_info_report :: report_host where
  "empty_info_report =
     ReportHost (Some (Some ''10.0.0.2''))
       [[Element check_name_tag (Some ''c''), Element info_tag None]]"

definition rescan_report :: report_host where
  "rescan_report =
     ReportHost (Some (Some ''10.0.0.1'')) [finding ''c2'' ''FAILED'' ''B'' ''3'']"

definition error_report :: report_host where
  "error_report =
     ReportHost (Some (Some ''10.0.0.3''))
       [finding ''c1'' ''PASSED'' ''A'' ''1'', finding ''c2'' ''ERROR'' ''A'' ''1'']"

text \<open>Two readable input files that both report host 10.0.0.1; any other path
  cannot be opened.\<close>

definition sample_fs :: "string \<Rightarrow> parse_result" where
  "sample_fs p =
     (if p = ''a.nessus'' then Parsed [one_finding_report]
      else if p = ''b.nessus'' then Parsed [rescan_report]
      else IOError)"

text \<open>A finding without an actual value whose result is none of the four counted ones.\<close>

definition info_entry :: item where
  "info_entry =
     [Element check_name_tag (Some ''1.1.2 Ensure mounting of squashfs is disabled''),
      Element result_tag (Some ''INFO''),
      Element info_tag (Some ''info''), Element policy_value_tag (Some ''policy''),
      Element solution_tag (Some ''fix''), Element benchmark_profile_tag (Some ''L1''),
      Element see_also_tag (Some ''ref'')]"

text \<open>Host records: a finding followed by a finding without actual value and without
  benchmark metadata; a single finding with result INFO.\<close>

definition no_metadata_report :: report_host where
  "no_metadata_report =
     ReportHost (Some (Some ''10.0.0.4'')) [finding ''c1'' ''PASSED'' ''A'' ''1'', no_actual_entry]"

definition info_result_report :: report_host where
  "info_result_report = ReportHost (Some (Some ''10.0.0.5'')) [info_entry]"

text \<open>One readable input file whose host record has an empty description element.\<close>

definition crashing_fs :: "string \<Rightarrow> parse_result" where
  "crashing_fs p = (if p = ''a.nessus'' then Parsed [empty_info_report] else IOError)"

section \<open>Properties of \<open>get_value\<close>\<close>

lemma re_sub_spaces_Cons:
  "re_sub_spaces (c # cs) =
     (if c = CHR '' '' \<and> cs \<noteq> [] \<and> hd cs = CHR '' ''
      then CHR '' '' # re_sub_spaces (dropWhile is_space cs)
      else c # re_sub_spaces cs)"
  by (cases cs) (simp_all add: is_space_def)

lemma re_sub_spaces_Nil_iff: "re_sub_spaces s = [] \<longleftrightarrow> s = []"
  by (cases s) simp_all

lemma hd_re_sub_spaces: "hd (re_sub_spaces s) = hd s"
  by (cases s) (simp_all add: re_sub_spaces_Cons del: re_sub_spaces.simps(2))

lemma last_dropWhile_keep: "dropWhile P xs \<noteq> [] \<Longrightarrow> last (dropWhile P xs) = last xs"
  by (induction xs) (auto split: if_splits)

lemma last_all_space: "\<forall>x\<in>set xs. is_space x \<Longrightarrow> xs \<noteq> [] \<Longrightarrow> last xs = CHR '' ''"
  by (induction xs) (auto simp: is_space_def)

lemma last_re_sub_spaces: "s \<noteq> [] \<Longrightarrow> last (re_sub_spaces s) = last s"
proof (induction s rule: re_sub_spaces.induct)
  case 1
  then show ?case by simp
next
  case (2 c cs)
  show ?case
  proof (cases "2 \<le> length (takeWhile is_space (c # cs))")
    case True
    show ?thesis
    proof (cases "dropWhile is_space (c # cs) = []")
      case True
      then have "\<forall>x\<in>set (c # cs). is_space x"
        by (simp only: dropWhile_eq_Nil_conv)
      then have "last (c # cs) = CHR '' ''"
        by (rule last_all_space) simp
      with True \<open>2 \<le> length (takeWhile is_space (c # cs))\<close> show ?thesis
        by simp
    next
      case False
      with True "2.IH"(1) have "last (re_sub_spaces (dropWhile is_space (c # cs)))
          = last (dropWhile is_space (c # cs))"
        by blast
      also have "\<dots> = last (c # cs)"
        using False by (rule last_dropWhile_keep)
      finally show ?thesis
        using True False by (simp add: re_sub_spaces_Nil_iff)
    qed
  next
    case False
    with "2.IH"(2) show ?thesis
      by (cases cs) (simp_all add: re_sub_spaces_Nil_iff)
  qed
qed

lemma set_re_sub_spaces: "set (re_sub_spaces s) \<subseteq> set s"
proof (induction s rule: re_sub_spaces.induct)
  case 1
  then show ?case by simp
next
  case (2 c cs)
  show ?case
  proof (cases "2 \<le> length (takeWhile is_space (c # cs))")
    case True
    then have "c = CHR '' ''"
      by (auto simp: is_space_def split: if_splits)
    moreover have "set (dropWhile is_space (c # cs)) \<subseteq> set (c # cs)"
      by (rule set_dropWhileD[THEN subsetI])
    ultimately show ?thesis
      using True "2.IH"(1) by auto
  next
    case False
    with "2.IH"(2) show ?thesis by auto
  qed
qed

lemma no_dbl_Cons: "no_dbl (a # s) \<longleftrightarrow> (s = [] \<or> a \<noteq> CHR '' '' \<or> hd s \<noteq> CHR '' '') \<and> no_dbl s"
  by (cases s) auto

lemma hd_dropWhile_space: "dropWhile is_space s \<noteq> [] \<Longrightarrow> hd (dropWhile is_space s) \<noteq> CHR '' ''"
  using hd_dropWhile[of is_space s] by (simp add: is_space_def)

lemma no_dbl_re_sub_spaces: "no_dbl (re_sub_spaces s)"
proof (induction s rule: re_sub_spaces.induct)
  case 1
  then show ?case by simp
next
  case (2 c cs)
  show ?case
  proof (cases "2 \<le> length (takeWhile is_space (c # cs))")
    case True
    let ?r = "dropWhile is_space (c # cs)"
    have "re_sub_spaces ?r = [] \<or> hd (re_sub_spaces ?r) \<noteq> CHR '' ''"
      using hd_dropWhile_space[of "c # cs"] by (simp only: hd_re_sub_spaces re_sub_spaces_Nil_iff) blast
    with True "2.IH"(1) show ?thesis
      by (simp add: no_dbl_Cons)
  next
    case False
    then have "cs = [] \<or> c \<noteq> CHR '' '' \<or> hd cs \<noteq> CHR '' ''"
      by (cases cs) (auto simp: is_space_def)
    with False "2.IH"(2) show ?thesis
      by (simp add: no_dbl_Cons hd_re_sub_spaces re_sub_spaces_Nil_iff)
  qed
qed

lemma re_sub_spaces_id: "no_dbl s \<Longrightarrow> re_sub_spaces s = s"
  by (induction s rule: no_dbl.induct) (simp_all add: is_space_def)

lemma re_sub_spaces_append:
  "no_dbl xs \<Longrightarrow> xs = [] \<or> last xs \<noteq> CHR '' '' \<Longrightarrow> re_sub_spaces (xs @ ys) = xs @ re_sub_spaces ys"
proof (induction xs rule: no_dbl.induct)
  case 1
  then show ?case by simp
next
  case (2 a)
  then show ?case by (simp add: re_sub_spaces_Cons del: re_sub_spaces.simps(2))
next
  case (3 a b cs)
  then show ?case by (auto simp: is_space_def)
qed

lemma get_value_alt:
  "get_value rawValue =
     (if length (normalized_form rawValue) > 32000
      then take 32000 (normalized_form rawValue) @ cut_marker
      else normalized_form rawValue)"
  by (simp add: get_value_def normalized_form_def Let_def)

lemma replace_nl_no_nl: "CHR 0x0A \<notin> set (replace_nl s)"
  by (auto simp: replace_nl_def)

lemma replace_nl_id: "CHR 0x0A \<notin> set s \<Longrightarrow> replace_nl s = s"
  by (induction s) (auto simp: replace_nl_def)

lemma set_strip_sp: "set (strip_sp s) \<subseteq> set s"
proof -
  have "set (strip_sp s) \<subseteq> set (dropWhile is_space s)"
    unfolding strip_sp_def using set_dropWhileD[of _ is_space "rev (dropWhile is_space s)"]
    by auto
  also have "\<dots> \<subseteq> set s"
    using set_dropWhileD[of _ is_space s] by auto
  finally show ?thesis .
qed

lemma strip_sp_ends:
  "strip_sp s = [] \<or> hd (strip_sp s) \<noteq> CHR '' '' \<and> last (strip_sp s) \<noteq> CHR '' ''"
proof (cases "strip_sp s = []")
  case True
  then show ?thesis by simp
next
  case False
  let ?d = "dropWhile is_space s"
  let ?e = "dropWhile is_space (rev ?d)"
  from False have e: "?e \<noteq> []"
    by (simp add: strip_sp_def)
  have d: "?d \<noteq> []"
  proof
    assume "?d = []"
    then have "?e = []" by (simp only: rev.simps dropWhile.simps)
    with e show False ..
  qed
  have "last (strip_sp s) = hd ?e"
    using e by (simp add: strip_sp_def last_rev)
  then have l: "last (strip_sp s) \<noteq> CHR '' ''"
    using hd_dropWhile_space[OF e] by simp
  have "hd (strip_sp s) = last ?e"
    using e by (simp add: strip_sp_def hd_rev)
  also have "\<dots> = last (rev ?d)"
    using e by (rule last_dropWhile_keep)
  also have "\<dots> = hd ?d"
    using d by (simp add: last_rev)
  finally have "hd (strip_sp s) \<noteq> CHR '' ''"
    using hd_dropWhile_space[OF d] by simp
  with l show ?thesis by simp
qed

lemma strip_sp_id: "s = [] \<or> hd s \<noteq> CHR '' '' \<and> last s \<noteq> CHR '' '' \<Longrightarrow> strip_sp s = s"
proof (cases s)
  case Nil
  then show ?thesis by (simp add: strip_sp_def)
next
  case (Cons a as)
  assume "s = [] \<or> hd s \<noteq> CHR '' '' \<and> last s \<noteq> CHR '' ''"
  with Cons have h: "a \<noteq> CHR '' ''" and l: "last s \<noteq> CHR '' ''"
    by auto
  from h Cons have 1: "dropWhile is_space s = s"
    by (simp add: is_space_def)
  from Cons have "rev s \<noteq> []" by simp
  then obtain b bs where r: "rev s = b # bs"
    by (cases "rev s") auto
  then have "b = last s"
    using Cons by (metis hd_rev list.sel(1))
  with l have "dropWhile is_space (b # bs) = b # bs"
    by (simp add: is_space_def)
  with r have "dropWhile is_space (rev s) = rev s"
    by (simp only:)
  with 1 show ?thesis
    by (simp add: strip_sp_def)
qed

lemma clean_normalized_form: "clean (normalized_form raw)"
proof -
  let ?s = "strip_sp (replace_nl raw)"
  have "set (normalized_form raw) \<subseteq> set (replace_nl raw)"
    unfolding normalized_form_def using set_re_sub_spaces[of ?s] set_strip_sp[of "replace_nl raw"]
    by blast
  then have nl: "CHR 0x0A \<notin> set (normalized_form raw)"
    using replace_nl_no_nl[of raw] by blast
  have ends: "normalized_form raw = [] \<or>
      hd (normalized_form raw) \<noteq> CHR '' '' \<and> last (normalized_form raw) \<noteq> CHR '' ''"
  proof (cases "?s = []")
    case True
    then show ?thesis by (simp add: normalized_form_def)
  next
    case False
    with strip_sp_ends[of "replace_nl raw"] show ?thesis
      by (simp add: normalized_form_def hd_re_sub_spaces last_re_sub_spaces)
  qed
  from nl ends show ?thesis
    by (simp add: clean_def normalized_form_def no_dbl_re_sub_spaces)
qed

lemma normalized_form_clean: "clean s \<Longrightarrow> normalized_form s = s"
  by (simp add: clean_def normalized_form_def replace_nl_id strip_sp_id re_sub_spaces_id)

lemma no_dbl_take: "no_dbl s \<Longrightarrow> no_dbl (take n s)"
proof (induction s arbitrary: n)
  case Nil
  then show ?case by simp
next
  case (Cons a s)
  show ?case
  proof (cases n)
    case 0
    then show ?thesis by simp
  next
    case (Suc m)
    from Cons have "no_dbl (take m s)"
      by (simp add: no_dbl_Cons)
    with Cons.prems Suc show ?thesis
      by (cases m; cases s) (auto simp: no_dbl_Cons)
  qed
qed

lemma no_dbl_snoc_space: "no_dbl (xs @ [CHR '' '']) \<Longrightarrow> xs = [] \<or> last xs \<noteq> CHR '' ''"
  by (induction xs rule: no_dbl.induct) (auto split: if_splits)

lemma no_dbl_butlast: "no_dbl (xs @ [x]) \<Longrightarrow> no_dbl xs"
  by (induction xs rule: no_dbl.induct) auto

lemma re_sub_spaces_marker: "re_sub_spaces cut_marker = cut_marker"
  by (simp add: cut_marker_def re_sub_spaces_Cons del: re_sub_spaces.simps(2))

lemma re_sub_spaces_space_marker: "re_sub_spaces (CHR '' '' # cut_marker) = cut_marker"
  by (simp add: cut_marker_def re_sub_spaces_Cons is_space_def del: re_sub_spaces.simps(2))

text \<open>Cutting a clean value and cleaning the result again gives the same cut.\<close>

lemma renormalize_cut:
  assumes c: "clean c" and n: "0 < n" "n < length c"
  defines "out \<equiv> take n c @ cut_marker"
  shows "n < length (normalized_form out) \<and> take n (normalized_form out) = take n c"
proof -
  let ?t = "take n c"
  from n have t_ne: "?t \<noteq> []" and len_t: "length ?t = n"
    by auto
  from c n have hd_t: "hd ?t \<noteq> CHR '' ''"
    by (cases c; cases n) (auto simp: clean_def)
  have "set ?t \<subseteq> set c"
    by (rule set_take_subset)
  with c have "CHR 0x0A \<notin> set out"
    by (auto simp: out_def clean_def cut_marker_def)
  then have 1: "replace_nl out = out"
    by (rule replace_nl_id)
  have "hd out \<noteq> CHR '' ''" "last out \<noteq> CHR '' ''"
    using t_ne hd_t by (simp_all add: out_def cut_marker_def)
  then have 2: "strip_sp out = out"
    by (simp add: strip_sp_id)
  from 1 2 have nf: "normalized_form out = re_sub_spaces (?t @ cut_marker)"
    by (simp add: normalized_form_def out_def)
  from c have nd_t: "no_dbl ?t"
    by (simp add: clean_def no_dbl_take)
  show ?thesis
  proof (cases "last ?t = CHR '' ''")
    case False
    with nd_t have "re_sub_spaces (?t @ cut_marker) = ?t @ cut_marker"
      by (simp add: re_sub_spaces_append re_sub_spaces_marker)
    with nf len_t show ?thesis
      by (simp add: cut_marker_def)
  next
    case True
    with t_ne have t: "?t = butlast ?t @ [CHR '' '']"
      by (metis append_butlast_last_id)
    with nd_t have "no_dbl (butlast ?t @ [CHR '' ''])"
      by simp
    then have b: "no_dbl (butlast ?t)" "butlast ?t = [] \<or> last (butlast ?t) \<noteq> CHR '' ''"
      by (rule no_dbl_butlast, rule no_dbl_snoc_space)
    have "?t @ cut_marker = butlast ?t @ (CHR '' '' # cut_marker)"
      using t by (metis append.assoc append_Cons append_Nil)
    then have "re_sub_spaces (?t @ cut_marker) = re_sub_spaces (butlast ?t @ (CHR '' '' # cut_marker))"
      by (simp only:)
    also have "\<dots> = butlast ?t @ re_sub_spaces (CHR '' '' # cut_marker)"
      using b by (rule re_sub_spaces_append)
    also have "\<dots> = butlast ?t @ cut_marker"
      by (simp only: re_sub_spaces_space_marker)
    finally have "re_sub_spaces (?t @ cut_marker) = butlast ?t @ cut_marker" .
    with nf have r: "normalized_form out = butlast ?t @ cut_marker"
      by simp
    have lb: "length (butlast ?t) = n - 1"
      using len_t by simp
    have "take n (butlast ?t @ cut_marker) = butlast ?t @ take 1 cut_marker"
      using lb n by simp
    also have "\<dots> = butlast ?t @ [CHR '' '']"
      by (simp add: cut_marker_def)
    also have "\<dots> = ?t"
      using t by simp
    finally have "take n (normalized_form out) = ?t"
      using r by simp
    moreover have "n < length (normalized_form out)"
      using r lb n by (simp add: cut_marker_def)
    ultimately show ?thesis by simp
  qed
qed

text \<open>
  C8. The text normalization is idempotent: for every input string, applying
  \<open>get_value\<close> to its own output returns that output unchanged. (A cut value is cut
  again at the same place and gets the same marker.)
\<close>

theorem get_value_idempotent: "get_value (get_value rawValue) = get_value rawValue"
proof (cases "length (normalized_form rawValue) > 32000")
  case False
  then have "get_value rawValue = normalized_form rawValue"
    by (simp add: get_value_alt)
  moreover have "normalized_form (normalized_form rawValue) = normalized_form rawValue"
    by (rule normalized_form_clean) (rule clean_normalized_form)
  ultimately show ?thesis
    using False by (simp add: get_value_alt)
next
  case True
  let ?c = "normalized_form rawValue"
  from True have g: "get_value rawValue = take 32000 ?c @ cut_marker"
    by (simp add: get_value_alt)
  have "32000 < length (normalized_form (take 32000 ?c @ cut_marker)) \<and>
      take 32000 (normalized_form (take 32000 ?c @ cut_marker)) = take 32000 ?c"
    using clean_normalized_form[of rawValue] True by (intro renormalize_cut) simp_all
  then show ?thesis
    unfolding g by (simp add: get_value_alt)
qed

lemma no_dbl_no_space: "\<forall>c\<in>set s. c \<noteq> CHR '' '' \<Longrightarrow> no_dbl s"
  by (induction s rule: no_dbl.induct) auto

lemma clean_replicate_a: "clean (replicate n (CHR ''a''))"
proof (cases n)
  case 0
  then show ?thesis by (simp add: clean_def)
next
  case (Suc m)
  have "no_dbl (replicate n (CHR ''a''))"
    by (rule no_dbl_no_space) simp
  moreover have "hd (replicate n (CHR ''a'')) = CHR ''a''"
    using Suc by simp
  moreover have "last (replicate n (CHR ''a'')) = CHR ''a''"
    using Suc by (simp only: last_replicate)
  ultimately show ?thesis
    by (simp add: clean_def)
qed

text \<open>
  C7. When the value is exactly 32,001 characters long after the other normalization
  steps, \<open>get_value\<close> returns its first 32,000 characters followed by the fixed
  marker; when it is at most 32,000 characters long there, it is returned as it is,
  without a marker.
\<close>

theorem get_value_cut_at_32001:
  "(length (normalized_form rawValue) = 32001 \<longrightarrow>
      get_value rawValue = take 32000 (normalized_form rawValue) @ cut_marker) \<and>
   (length (normalized_form rawValue) \<le> 32000 \<longrightarrow>
      get_value rawValue = normalized_form rawValue)"
  by (simp add: get_value_alt)

theorem get_value_cut_at_32001_witness:
  "length (normalized_form (replicate 32001 (CHR ''a''))) = 32001 \<and>
   get_value (replicate 32001 (CHR ''a'')) = replicate 32000 (CHR ''a'') @ '' [Text Cut Due To Length]'' \<and>
   length (normalized_form '' a   b '') \<le> 32000 \<and>
   get_value '' a   b '' = ''a b''"
proof -
  have n1: "normalized_form (replicate 32001 (CHR ''a'')) = replicate 32001 (CHR ''a'')"
    by (rule normalized_form_clean) (rule clean_replicate_a)
  have n2: "normalized_form '' a   b '' = ''a b''"
    by (simp add: normalized_form_def replace_nl_def strip_sp_def is_space_def re_sub_spaces_Cons
        del: re_sub_spaces.simps(2))
  from n1 have h1: "length (normalized_form (replicate 32001 (CHR ''a''))) = 32001"
    by simp
  from n2 have h2: "length (normalized_form '' a   b '') \<le> 32000"
    by simp
  from get_value_cut_at_32001[of "replicate 32001 (CHR ''a'')"] h1
  have "get_value (replicate 32001 (CHR ''a'')) = take 32000 (replicate 32001 (CHR ''a'')) @ cut_marker"
    by (simp only: n1)
  then have g1: "get_value (replicate 32001 (CHR ''a'')) = replicate 32000 (CHR ''a'') @ '' [Text Cut Due To Length]''"
    by (simp add: cut_marker_def)
  from get_value_cut_at_32001[of "'' a   b ''"] h2 have g2: "get_value '' a   b '' = ''a b''"
    by (simp only: n2)
  from h1 g1 h2 g2 show ?thesis by blast
qed

section \<open>Properties of \<open>handle_report\<close>\<close>

subsection \<open>Dictionaries and the error monad\<close>

lemma bind_e_Inr_iff: "bind_e m f = Inr y \<longleftrightarrow> (\<exists>x. m = Inr x \<and> f x = Inr y)"
  by (cases m) (simp_all add: bind_e_def)

lemma bind_e_simps [simp]: "bind_e (Inl e) f = Inl e" "bind_e (Inr x) f = f x"
  by (simp_all add: bind_e_def)

lemma distinct_COMPLIANCE_TAGS: "distinct COMPLIANCE_TAGS"
  by (simp add: COMPLIANCE_TAGS_def check_name_tag_def result_tag_def info_tag_def
      policy_value_tag_def actual_value_tag_def solution_tag_def benchmark_profile_tag_def
      see_also_tag_def)

lemma length_COMPLIANCE_TAGS: "length COMPLIANCE_TAGS = 8"
  by (simp add: COMPLIANCE_TAGS_def)

lemma dict_keys_set: "set (dict_keys (dict_set d k v)) = insert k (set (dict_keys d))"
  using AList.dom_update[of k v d] by (simp add: dict_keys_def dict_set_def)

lemma dict_keys_distinct: "distinct (dict_keys d) \<Longrightarrow> distinct (dict_keys (dict_set d k v))"
  by (simp add: dict_keys_def dict_set_def AList.distinct_update)

lemma map_of_dict_set: "map_of (dict_set d k v) = (map_of d)(k \<mapsto> v)"
  by (simp add: dict_set_def AList.update_conv')

lemma dict_get_dict_set: "dict_get (dict_set d k v) k' = (if k' = k then Inr v else dict_get d k')"
  by (simp add: dict_get_def map_of_dict_set)

lemma dict_get_Inr_iff: "dict_get d k = Inr v \<longleftrightarrow> map_of d k = Some v"
  by (simp add: dict_get_def split: option.splits)

lemma dict_get_in_keys: "k \<in> set (dict_keys d) \<Longrightarrow> \<exists>v. dict_get d k = Inr v"
proof -
  assume "k \<in> set (dict_keys d)"
  then have "map_of d k \<noteq> None"
    by (simp add: dict_keys_def map_of_eq_None_iff)
  then obtain v where "map_of d k = Some v"
    by blast
  then show ?thesis
    by (simp add: dict_get_def)
qed

lemma dict_get_not_in_keys: "k \<notin> set (dict_keys d) \<Longrightarrow> dict_get d k = Inl KeyError"
proof -
  assume "k \<notin> set (dict_keys d)"
  then have "map_of d k = None"
    by (simp add: dict_keys_def map_of_eq_None_iff)
  then show ?thesis
    by (simp add: dict_get_def)
qed

subsection \<open>The dictionary comprehension\<close>

lemma has_field_Nil: "\<not> has_field [] t"
  by (simp add: has_field_def)

lemma has_field_Cons: "has_field (e # es) t \<longleftrightarrow> elem_tag e = t \<or> has_field es t"
  by (auto simp: has_field_def)

lemma issue_dict_of_fails:
  "\<not> fields_have_text item \<Longrightarrow> issue_dict_of item d0 = Inl AttributeError"
proof (induction item arbitrary: d0)
  case Nil
  then show ?case by (simp add: fields_have_text_def)
next
  case (Cons e es)
  show ?case
  proof (cases "elem_tag e \<in> set COMPLIANCE_TAGS")
    case True
    show ?thesis
    proof (cases "elem_text e")
      case None
      with True show ?thesis by (simp add: get_value_text_def)
    next
      case (Some s)
      with True Cons.prems have "\<not> fields_have_text es"
        by (simp add: fields_have_text_def)
      with True Some Cons.IH show ?thesis
        by (simp add: get_value_text_def)
    qed
  next
    case False
    with Cons.prems have "\<not> fields_have_text es"
      by (simp add: fields_have_text_def)
    with False Cons.IH show ?thesis by simp
  qed
qed

lemma issue_dict_of_succeeds:
  "fields_have_text item \<Longrightarrow> \<exists>d. issue_dict_of item d0 = Inr d"
proof (induction item arbitrary: d0)
  case Nil
  then show ?case by simp
next
  case (Cons e es)
  then have es: "fields_have_text es"
    by (simp add: fields_have_text_def)
  show ?case
  proof (cases "elem_tag e \<in> set COMPLIANCE_TAGS")
    case True
    with Cons.prems obtain s where "elem_text e = Some s"
      by (auto simp: fields_have_text_def)
    with True Cons.IH[OF es] show ?thesis
      by (simp add: get_value_text_def)
  next
    case False
    with Cons.IH[OF es] show ?thesis by simp
  qed
qed

lemma issue_dict_of_Inr_text:
  "issue_dict_of item d0 = Inr d \<Longrightarrow> fields_have_text item"
  using issue_dict_of_fails[of item d0] by auto

lemma issue_dict_of_keys:
  "issue_dict_of item d0 = Inr d \<Longrightarrow>
     set (dict_keys d) = set (dict_keys d0) \<union> {t \<in> set COMPLIANCE_TAGS. has_field item t} \<and>
     (distinct (dict_keys d0) \<longrightarrow> distinct (dict_keys d))"
proof (induction item arbitrary: d0)
  case Nil
  then show ?case by (simp add: has_field_Nil)
next
  case (Cons e es)
  show ?case
  proof (cases "elem_tag e \<in> set COMPLIANCE_TAGS")
    case True
    with Cons.prems obtain v where v: "get_value_text (elem_text e) = Inr v"
      and r: "issue_dict_of es (dict_set d0 (elem_tag e) v) = Inr d"
      by (auto simp: bind_e_Inr_iff)
    from Cons.IH[OF r] True show ?thesis
      by (auto simp: dict_keys_set dict_keys_distinct has_field_Cons)
  next
    case False
    with Cons.prems have "issue_dict_of es d0 = Inr d" by simp
    from Cons.IH[OF this] False show ?thesis
      by (auto simp: has_field_Cons)
  qed
qed

lemma find_append_case:
  "find P (xs @ ys) = (case find P xs of None \<Rightarrow> find P ys | Some x \<Rightarrow> Some x)"
  by (induction xs) auto

lemma item_field_Cons:
  "item_field (e # es) t =
     (if has_field es t then item_field es t
      else if elem_tag e = t then map_option get_value (elem_text e) else None)"
proof (cases "find (\<lambda>e. elem_tag e = t) (rev es)")
  case None
  then have "\<not> has_field es t"
    by (auto simp: find_None_iff has_field_def)
  with None show ?thesis
    by (simp add: item_field_def find_append_case)
next
  case (Some x)
  then obtain i where "i < length (rev es)" and "elem_tag (rev es ! i) = t" and "x = rev es ! i"
    unfolding find_Some_iff by blast
  then have "x \<in> set es" and "elem_tag x = t"
    using nth_mem[of i "rev es"] by simp_all
  then have "has_field es t"
    unfolding has_field_def by blast
  with Some show ?thesis
    by (simp add: item_field_def find_append_case)
qed

lemma item_field_absent: "\<not> has_field item t \<Longrightarrow> item_field item t = None"
proof -
  assume "\<not> has_field item t"
  then have "find (\<lambda>e. elem_tag e = t) (rev item) = None"
    by (auto simp: find_None_iff has_field_def)
  then show ?thesis
    by (simp add: item_field_def)
qed

lemma issue_dict_of_values:
  "issue_dict_of item d0 = Inr d \<Longrightarrow>
     map_of d t = (if t \<in> set COMPLIANCE_TAGS \<and> has_field item t then item_field item t
                   else map_of d0 t)"
proof (induction item arbitrary: d0)
  case Nil
  then show ?case by (simp add: has_field_Nil)
next
  case (Cons e es)
  show ?case
  proof (cases "elem_tag e \<in> set COMPLIANCE_TAGS")
    case True
    with Cons.prems obtain v where v: "get_value_text (elem_text e) = Inr v"
      and r: "issue_dict_of es (dict_set d0 (elem_tag e) v) = Inr d"
      by (auto simp: bind_e_Inr_iff)
    from v have tv: "map_option get_value (elem_text e) = Some v"
      by (cases "elem_text e") (simp_all add: get_value_text_def)
    from Cons.IH[OF r] True tv show ?thesis
      by (auto simp: item_field_Cons map_of_dict_set has_field_Cons)
  next
    case False
    with Cons.prems have "issue_dict_of es d0 = Inr d" by simp
    from Cons.IH[OF this] False show ?thesis
      by (simp add: item_field_Cons has_field_Cons) blast
  qed
qed

subsection \<open>One iteration of the loop of \<open>handle_report\<close>\<close>

lemma lookup_all_present:
  "set ts \<subseteq> set (dict_keys d) \<Longrightarrow> lookup_all d ts = Inr (map (\<lambda>t. the (map_of d t)) ts)"
proof (induction ts)
  case Nil
  then show ?case by simp
next
  case (Cons t ts)
  then have "t \<in> set (dict_keys d)" by simp
  from dict_get_in_keys[OF this] obtain v where v: "dict_get d t = Inr v" ..
  then have "map_of d t = Some v"
    by (simp add: dict_get_Inr_iff)
  with v Cons show ?case
    by simp
qed

lemma actual_in_tags: "actual_value_tag \<in> set COMPLIANCE_TAGS"
  by (simp add: COMPLIANCE_TAGS_def)

lemma default_actual_keys:
  "set (dict_keys (default_actual d)) = insert actual_value_tag (set (dict_keys d))"
  by (auto simp: default_actual_def dict_keys_set)

lemma default_actual_distinct:
  "distinct (dict_keys d) \<Longrightarrow> distinct (dict_keys (default_actual d))"
  by (simp add: default_actual_def dict_keys_distinct)

lemma map_of_default_actual:
  "map_of (default_actual d) t =
     (if t = actual_value_tag \<and> actual_value_tag \<notin> set (dict_keys d)
      then Some ''No output recorded'' else map_of d t)"
  by (simp add: default_actual_def map_of_dict_set)

text \<open>
  The length test of line 161 holds exactly when all seven fields other than the
  actual value are there.
\<close>

lemma full_length_iff:
  assumes d: "issue_dict_of item [] = Inr d"
  shows "length (dict_keys (default_actual d)) = length COMPLIANCE_TAGS \<longleftrightarrow>
         (\<forall>t\<in>set COMPLIANCE_TAGS. t \<noteq> actual_value_tag \<longrightarrow> has_field item t)"
proof -
  let ?ks = "dict_keys (default_actual d)"
  from issue_dict_of_keys[OF d]
  have keys: "set (dict_keys d) = {t \<in> set COMPLIANCE_TAGS. has_field item t}"
    and dist: "distinct (dict_keys d)"
    by (simp_all add: dict_keys_def)
  have ks: "set ?ks = insert actual_value_tag {t \<in> set COMPLIANCE_TAGS. has_field item t}"
    by (simp add: default_actual_keys keys)
  then have sub: "set ?ks \<subseteq> set COMPLIANCE_TAGS"
    using actual_in_tags by auto
  have len: "length ?ks = card (set ?ks)"
    using default_actual_distinct[OF dist] by (simp add: distinct_card)
  have tags: "length COMPLIANCE_TAGS = card (set COMPLIANCE_TAGS)"
    using distinct_COMPLIANCE_TAGS by (simp add: distinct_card)
  have "card (set ?ks) = card (set COMPLIANCE_TAGS) \<longleftrightarrow> set ?ks = set COMPLIANCE_TAGS"
    using sub by (metis List.finite_set card_subset_eq)
  also have "\<dots> \<longleftrightarrow> (\<forall>t\<in>set COMPLIANCE_TAGS. t \<noteq> actual_value_tag \<longrightarrow> has_field item t)"
    unfolding ks using actual_in_tags by auto
  finally show ?thesis
    by (simp only: len tags)
qed

lemma accepted_iff:
  "accepted item \<longleftrightarrow>
     fields_have_text item \<and>
     (\<forall>t\<in>set COMPLIANCE_TAGS. t \<noteq> actual_value_tag \<longrightarrow> has_field item t)"
proof (cases "fields_have_text item")
  case True
  then obtain d where d: "issue_dict_of item [] = Inr d"
    using issue_dict_of_succeeds by blast
  with True full_length_iff[OF d] show ?thesis
    by (simp add: accepted_def)
next
  case False
  then show ?thesis
    by (simp add: accepted_def issue_dict_of_fails)
qed

lemma set_benchmark_only_name:
  "set_benchmark item st = Inr st1 \<Longrightarrow>
     summary_dict st1 = summary_dict st \<and> ip_issues st1 = ip_issues st \<and>
     issue_list st1 = issue_list st \<and> hr_printed st1 = hr_printed st"
  by (auto simp: set_benchmark_def bind_e_Inr_iff split: if_splits)

lemma tags_in_keys:
  assumes d: "issue_dict_of item [] = Inr d"
    and full: "length (dict_keys (default_actual d)) = length COMPLIANCE_TAGS"
  shows "set COMPLIANCE_TAGS \<subseteq> set (dict_keys (default_actual d))"
proof -
  from issue_dict_of_keys[OF d]
  have keys: "set (dict_keys d) = {t \<in> set COMPLIANCE_TAGS. has_field item t}"
    by (simp add: dict_keys_def)
  from full have "\<forall>t\<in>set COMPLIANCE_TAGS. t \<noteq> actual_value_tag \<longrightarrow> has_field item t"
    by (simp only: full_length_iff[OF d])
  then show ?thesis
    by (auto simp: default_actual_keys keys)
qed

lemma row_of_accepted:
  assumes d: "issue_dict_of item [] = Inr d"
    and full: "length (dict_keys (default_actual d)) = length COMPLIANCE_TAGS"
  shows "lookup_all (default_actual d) COMPLIANCE_TAGS = Inr (issue_row item)"
proof -
  from issue_dict_of_keys[OF d]
  have keys: "set (dict_keys d) = {t \<in> set COMPLIANCE_TAGS. has_field item t}"
    by (simp add: dict_keys_def)
  from full have all: "\<forall>t\<in>set COMPLIANCE_TAGS. t \<noteq> actual_value_tag \<longrightarrow> has_field item t"
    by (simp only: full_length_iff[OF d])
  have "lookup_all (default_actual d) COMPLIANCE_TAGS
      = Inr (map (\<lambda>t. the (map_of (default_actual d) t)) COMPLIANCE_TAGS)"
    using tags_in_keys[OF d full] by (rule lookup_all_present)
  moreover have "the (map_of (default_actual d) t)
      = (case item_field item t of Some v \<Rightarrow> v | None \<Rightarrow> ''No output recorded'')"
    if t: "t \<in> set COMPLIANCE_TAGS" for t
  proof (cases "has_field item t")
    case True
    from issue_dict_of_Inr_text[OF d] have ft: "fields_have_text item" .
    from True obtain x where x: "find (\<lambda>e. elem_tag e = t) (rev item) = Some x"
      by (cases "find (\<lambda>e. elem_tag e = t) (rev item)") (auto simp: find_None_iff has_field_def)
    then have "x \<in> set item" "elem_tag x = t"
      unfolding find_Some_iff using nth_mem[of _ "rev item"] by auto
    with ft t obtain s where "elem_text x = Some s"
      by (auto simp: fields_have_text_def)
    with x have "item_field item t = Some (get_value s)"
      by (simp add: item_field_def)
    moreover have "map_of (default_actual d) t = item_field item t"
      using True t keys by (auto simp: map_of_default_actual issue_dict_of_values[OF d])
    ultimately show ?thesis by simp
  next
    case False
    with all t have ta: "t = actual_value_tag" by blast
    with False keys have "actual_value_tag \<notin> set (dict_keys d)" by simp
    with ta False show ?thesis
      by (simp add: map_of_default_actual item_field_absent)
  qed
  ultimately show ?thesis
    by (simp add: issue_row_def)
qed

lemma result_of_accepted:
  assumes d: "issue_dict_of item [] = Inr d"
    and full: "length (dict_keys (default_actual d)) = length COMPLIANCE_TAGS"
  shows "dict_get (default_actual d) result_tag = Inr (issue_row item ! 1)"
proof -
  have "result_tag \<in> set COMPLIANCE_TAGS"
    by (simp add: COMPLIANCE_TAGS_def)
  with tags_in_keys[OF d full] have "result_tag \<in> set (dict_keys (default_actual d))"
    by (rule subsetD)
  from dict_get_in_keys[OF this] obtain v where v: "dict_get (default_actual d) result_tag = Inr v" ..
  then have m: "map_of (default_actual d) result_tag = Some v"
    by (simp add: dict_get_Inr_iff)
  have "Inr (issue_row item) = Inr (map (\<lambda>t. the (map_of (default_actual d) t)) COMPLIANCE_TAGS)"
    using row_of_accepted[OF d full] lookup_all_present[OF tags_in_keys[OF d full]] by simp
  then have "issue_row item ! 1 = the (map_of (default_actual d) (COMPLIANCE_TAGS ! 1))"
    by (simp add: length_COMPLIANCE_TAGS)
  also have "\<dots> = v"
    using m by (simp add: COMPLIANCE_TAGS_def)
  finally show ?thesis
    using v by simp
qed

lemma handle_item_accepted:
  assumes acc: "accepted item"
    and bench: "set_benchmark item st = Inr st1"
    and cnt: "dict_get (summary_dict st) (issue_row item ! 1) = Inr n"
  shows "handle_item item st =
     Inr (st1\<lparr>summary_dict := dict_set (summary_dict st) (issue_row item ! 1) (n + 1),
              issue_list := Some (issue_row item),
              ip_issues := ip_issues st @ [issue_row item]\<rparr>)"
proof -
  from acc obtain d where d: "issue_dict_of item [] = Inr d"
    and full: "length (dict_keys (default_actual d)) = length COMPLIANCE_TAGS"
    by (auto simp: accepted_def split: sum.splits)
  from set_benchmark_only_name[OF bench]
  have same: "summary_dict st1 = summary_dict st" "ip_issues st1 = ip_issues st"
    by simp_all
  show ?thesis
    using cnt
    by (simp add: handle_item_def d bench count_and_append_def full
        result_of_accepted[OF d full] row_of_accepted[OF d full] same Let_def)
qed

lemma handle_item_rejected:
  assumes "\<not> accepted item"
  shows "handle_item item st = bind_e (issue_dict_of item []) (\<lambda>d. set_benchmark item st)"
proof (cases "issue_dict_of item []")
  case (Inl e)
  then show ?thesis by (simp add: handle_item_def)
next
  case (Inr d)
  with assms have "length (dict_keys (default_actual d)) \<noteq> length COMPLIANCE_TAGS"
    by (simp add: accepted_def)
  with Inr show ?thesis
    by (cases "set_benchmark item st") (simp_all add: handle_item_def count_and_append_def)
qed

lemmas tag_defs = check_name_tag_def result_tag_def info_tag_def
      policy_value_tag_def actual_value_tag_def solution_tag_def benchmark_profile_tag_def
      see_also_tag_def benchmark_name_tag_def benchmark_version_tag_def

lemma item_field_has_field: "item_field item t = Some v \<Longrightarrow> has_field item t"
  using item_field_absent[of item t] by auto

lemma set_benchmark_idle:
  "length (ip_issues st) \<noteq> 1 \<or> benchmark_name st \<noteq> [] \<Longrightarrow> set_benchmark item st = Inr st"
  by (auto simp: set_benchmark_def)

text \<open>
  C3. A finding entry that lacks one of the recognized fields other than the actual
  value (the only one that is defaulted) produces no output row and changes no
  PASSED/FAILED/WARNING/ERROR counter: if the iteration returns at all, the list of
  rows and the counters are as before, and when the entry's recognized elements have
  text and no benchmark lookup is due, the iteration returns and leaves the whole
  state as it was.
\<close>

theorem missing_field_dropped:
  assumes "t \<in> set COMPLIANCE_TAGS" "t \<noteq> actual_value_tag" "\<not> has_field item t"
  shows "(\<forall>st'. handle_item item st = Inr st' \<longrightarrow>
            ip_issues st' = ip_issues st \<and> summary_dict st' = summary_dict st) \<and>
         (fields_have_text item \<and> (length (ip_issues st) \<noteq> 1 \<or> benchmark_name st \<noteq> []) \<longrightarrow>
            handle_item item st = Inr st)"
proof -
  from assms have "\<not> accepted item"
    by (auto simp: accepted_iff)
  then have h: "handle_item item st = bind_e (issue_dict_of item []) (\<lambda>d. set_benchmark item st)"
    by (rule handle_item_rejected)
  have "ip_issues st' = ip_issues st \<and> summary_dict st' = summary_dict st"
    if "handle_item item st = Inr st'" for st'
  proof -
    from that h have "set_benchmark item st = Inr st'"
      by (auto simp: bind_e_Inr_iff)
    then show ?thesis
      by (simp add: set_benchmark_only_name)
  qed
  moreover have "handle_item item st = Inr st"
    if "fields_have_text item" "length (ip_issues st) \<noteq> 1 \<or> benchmark_name st \<noteq> []"
  proof -
    from that(1) obtain d where "issue_dict_of item [] = Inr d"
      using issue_dict_of_succeeds by blast
    with h that(2) show ?thesis
      by (simp add: set_benchmark_idle)
  qed
  ultimately show ?thesis by blast
qed

theorem missing_field_dropped_witness:
  "solution_tag \<in> set COMPLIANCE_TAGS \<and> solution_tag \<noteq> actual_value_tag \<and>
   \<not> has_field [Element check_name_tag (Some ''c''), Element result_tag (Some ''PASSED'')] solution_tag \<and>
   handle_item [Element check_name_tag (Some ''c''), Element result_tag (Some ''PASSED'')] hr_init = Inr hr_init"
proof -
  let ?item = "[Element check_name_tag (Some ''c''), Element result_tag (Some ''PASSED'')]"
  have 1: "solution_tag \<in> set COMPLIANCE_TAGS"
    by (simp add: COMPLIANCE_TAGS_def)
  have 2: "solution_tag \<noteq> actual_value_tag"
    by (simp add: tag_defs)
  have 3: "\<not> has_field ?item solution_tag"
    by (simp add: has_field_def tag_defs)
  have 4: "fields_have_text ?item"
    by (simp add: fields_have_text_def)
  have 5: "length (ip_issues hr_init) \<noteq> 1"
    by (simp add: hr_init_def)
  from missing_field_dropped[OF 1 2 3, of hr_init] 4 5
  have "handle_item ?item hr_init = Inr hr_init"
    by blast
  with 1 2 3 show ?thesis by blast
qed


lemma issue_row_result: "item_field item result_tag = Some v \<Longrightarrow> issue_row item ! 1 = v"
  by (simp add: issue_row_def COMPLIANCE_TAGS_def)


lemma finding_has_text: "fields_have_text (finding n r b v)"
  by (simp add: fields_have_text_def finding_def)

lemma finding_has_field:
  "t \<in> set COMPLIANCE_TAGS \<Longrightarrow> has_field (finding n r b v) t"
  by (auto simp: has_field_def finding_def COMPLIANCE_TAGS_def)

lemma finding_accepted: "accepted (finding n r b v)"
  by (simp add: accepted_iff finding_has_text finding_has_field)



lemma get_value_clean: "clean s \<Longrightarrow> length s \<le> 32000 \<Longrightarrow> get_value s = s"
  by (simp add: get_value_alt normalized_form_clean)




lemma accepted_field:
  assumes "accepted item" "t \<in> set COMPLIANCE_TAGS" "t \<noteq> actual_value_tag"
  shows "\<exists>v. item_field item t = Some v"
proof -
  from assms have ft: "fields_have_text item" and hf: "has_field item t"
    by (simp_all add: accepted_iff)
  from hf obtain x where x: "find (\<lambda>e. elem_tag e = t) (rev item) = Some x"
    by (cases "find (\<lambda>e. elem_tag e = t) (rev item)") (auto simp: find_None_iff has_field_def)
  then have "x \<in> set item" "elem_tag x = t"
    unfolding find_Some_iff using nth_mem[of _ "rev item"] by auto
  with ft assms(2) obtain s where "elem_text x = Some s"
    by (auto simp: fields_have_text_def)
  with x show ?thesis
    by (simp add: item_field_def)
qed

text \<open>For an accepted entry every column other than the actual value holds the
  entry's own value for that field.\<close>

lemma accepted_row_own_values:
  assumes "accepted item" "k < 8" "k \<noteq> 4"
  shows "item_field item (COMPLIANCE_TAGS ! k) = Some (issue_row item ! k)"
proof -
  have t: "COMPLIANCE_TAGS ! k \<in> set COMPLIANCE_TAGS"
    using assms(2) by (simp add: length_COMPLIANCE_TAGS)
  have "COMPLIANCE_TAGS ! 4 = actual_value_tag"
    by (simp add: COMPLIANCE_TAGS_def)
  then have "COMPLIANCE_TAGS ! k \<noteq> actual_value_tag"
    using assms(2,3) distinct_COMPLIANCE_TAGS
    by (metis length_COMPLIANCE_TAGS nth_eq_iff_index_eq numeral_less_iff semiring_norm(76,78))
  from accepted_field[OF assms(1) t this] obtain v
    where "item_field item (COMPLIANCE_TAGS ! k) = Some v" ..
  then show ?thesis
    using assms(2) by (simp add: issue_row_def length_COMPLIANCE_TAGS)
qed

lemma handle_item_Inr:
  assumes "handle_item item st = Inr st'"
  shows "\<exists>st1. set_benchmark item st = Inr st1 \<and>
           (if accepted item
            then \<exists>n. dict_get (summary_dict st) (issue_row item ! 1) = Inr n \<and>
                   st' = st1\<lparr>summary_dict := dict_set (summary_dict st) (issue_row item ! 1) (n + 1),
                             issue_list := Some (issue_row item),
                             ip_issues := ip_issues st @ [issue_row item]\<rparr>
            else st' = st1)"
proof -
  from assms obtain d st1 where d: "issue_dict_of item [] = Inr d"
    and b: "set_benchmark item st = Inr st1"
    and c: "count_and_append (default_actual d) st1 = Inr st'"
    by (auto simp: handle_item_def bind_e_Inr_iff)
  show ?thesis
  proof (cases "accepted item")
    case False
    with handle_item_rejected[OF False, of st] assms d b show ?thesis
      by simp
  next
    case True
    with d have full: "length (dict_keys (default_actual d)) = length COMPLIANCE_TAGS"
      by (simp add: accepted_def)
    from c full result_of_accepted[OF d full]
    obtain n where n: "dict_get (summary_dict st1) (issue_row item ! 1) = Inr n"
      by (auto simp: count_and_append_def bind_e_Inr_iff)
    with set_benchmark_only_name[OF b]
    have n': "dict_get (summary_dict st) (issue_row item ! 1) = Inr n"
      by simp
    from handle_item_accepted[OF True b n'] assms True b n' show ?thesis
      by simp
  qed
qed

text \<open>
  C6, amended. A finding entry that has all seven other recognized fields but no
  actual value, in which no recognized element is empty, whose result has a counter
  in the summary (line 138 creates them for FAILED, PASSED, WARNING and ERROR) and at
  which the benchmark lookup of lines 150-151, when it is due, succeeds, is accepted,
  and the actual-value column of its output row is the sentinel
  \<open>No output recorded\<close>. The actual value is the only field that is ever defaulted:
  in the row of any accepted entry every other column holds the entry's own value
  for that field.
\<close>

theorem missing_actual_value_defaulted:
  assumes texts: "fields_have_text item"
    and fields: "item_field item check_name_tag = Some c" "item_field item result_tag = Some r"
      "item_field item info_tag = Some i" "item_field item policy_value_tag = Some p"
      "item_field item solution_tag = Some s" "item_field item benchmark_profile_tag = Some bp"
      "item_field item see_also_tag = Some sa"
    and absent: "\<not> has_field item actual_value_tag"
    and cnt: "dict_get (summary_dict st) r = Inr n"
    and bench: "set_benchmark item st = Inr st1"
  shows "handle_item item st =
           Inr (st1\<lparr>summary_dict := dict_set (summary_dict st) r (n + 1),
                    issue_list := Some [c, r, i, p, ''No output recorded'', s, bp, sa],
                    ip_issues := ip_issues st @ [[c, r, i, p, ''No output recorded'', s, bp, sa]]\<rparr>) \<and>
         (\<forall>item' st' st''. accepted item' \<longrightarrow> handle_item item' st' = Inr st'' \<longrightarrow>
            (\<forall>k<8. k \<noteq> 4 \<longrightarrow>
               item_field item' (COMPLIANCE_TAGS ! k) = Some (last (ip_issues st'') ! k)))"
proof -
  have "has_field item t" if "t \<in> set COMPLIANCE_TAGS" "t \<noteq> actual_value_tag" for t
    using that fields by (auto simp: COMPLIANCE_TAGS_def intro: item_field_has_field)
  with texts have acc: "accepted item"
    by (simp add: accepted_iff)
  from absent have "item_field item actual_value_tag = None"
    by (rule item_field_absent)
  with fields have row: "issue_row item = [c, r, i, p, ''No output recorded'', s, bp, sa]"
    by (simp add: issue_row_def COMPLIANCE_TAGS_def)
  from handle_item_accepted[OF acc bench, of n] cnt row
  have 1: "handle_item item st =
           Inr (st1\<lparr>summary_dict := dict_set (summary_dict st) r (n + 1),
                    issue_list := Some [c, r, i, p, ''No output recorded'', s, bp, sa],
                    ip_issues := ip_issues st @ [[c, r, i, p, ''No output recorded'', s, bp, sa]]\<rparr>)"
    by simp
  have 2: "item_field item' (COMPLIANCE_TAGS ! k) = Some (last (ip_issues st'') ! k)"
    if "accepted item'" "handle_item item' st' = Inr st''" "k < 8" "k \<noteq> 4" for item' st' st'' k
  proof -
    from handle_item_Inr[OF that(2)] that(1) have "last (ip_issues st'') = issue_row item'"
      by auto
    with accepted_row_own_values[OF that(1,3,4)] show ?thesis
      by simp
  qed
  from 1 2 show ?thesis by blast
qed

theorem missing_actual_value_defaulted_witness:
  "fields_have_text no_actual_entry \<and> \<not> has_field no_actual_entry actual_value_tag \<and>
   handle_item no_actual_entry hr_init =
     Inr (hr_init\<lparr>summary_dict := dict_set (summary_dict hr_init) ''FAILED'' 1,
            issue_list := Some [''1.1.1 Ensure mounting of cramfs is disabled'', ''FAILED'', ''info'',
              ''policy'', ''No output recorded'', ''fix'', ''L1'', ''ref''],
            ip_issues := [[''1.1.1 Ensure mounting of cramfs is disabled'', ''FAILED'', ''info'',
              ''policy'', ''No output recorded'', ''fix'', ''L1'', ''ref'']]\<rparr>)"
proof -
  have g: "get_value ''1.1.1 Ensure mounting of cramfs is disabled'' = ''1.1.1 Ensure mounting of cramfs is disabled''"
    "get_value ''FAILED'' = ''FAILED''" "get_value ''info'' = ''info''"
    "get_value ''policy'' = ''policy''" "get_value ''fix'' = ''fix''"
    "get_value ''L1'' = ''L1''" "get_value ''ref'' = ''ref''"
    by (rule get_value_clean, simp add: clean_def, simp)+
  have t: "fields_have_text no_actual_entry"
    by (simp add: fields_have_text_def no_actual_entry_def)
  have f: "item_field no_actual_entry check_name_tag = Some ''1.1.1 Ensure mounting of cramfs is disabled''"
    "item_field no_actual_entry result_tag = Some ''FAILED''"
    "item_field no_actual_entry info_tag = Some ''info''"
    "item_field no_actual_entry policy_value_tag = Some ''policy''"
    "item_field no_actual_entry solution_tag = Some ''fix''"
    "item_field no_actual_entry benchmark_profile_tag = Some ''L1''"
    "item_field no_actual_entry see_also_tag = Some ''ref''"
    by (simp_all add: item_field_def no_actual_entry_def tag_defs g)
  have a: "\<not> has_field no_actual_entry actual_value_tag"
    by (simp add: has_field_def no_actual_entry_def tag_defs)
  have c: "dict_get (summary_dict hr_init) ''FAILED'' = Inr 0"
    by (simp add: hr_init_def dict_get_def)
  have b: "set_benchmark no_actual_entry hr_init = Inr hr_init"
    by (simp add: set_benchmark_def hr_init_def)
  from missing_actual_value_defaulted[OF t f a c b] t a show ?thesis
    by (simp add: hr_init_def)
qed

subsection \<open>The loop of \<open>handle_report\<close>\<close>

lemma handle_items_accepted:
  assumes "accepted item" "set_benchmark item st = Inr st1"
    and "dict_get (summary_dict st) (issue_row item ! 1) = Inr n"
  shows "handle_items (item # rest) st =
     handle_items rest
       (st1\<lparr>summary_dict := dict_set (summary_dict st) (issue_row item ! 1) (n + 1),
            issue_list := Some (issue_row item),
            ip_issues := ip_issues st @ [issue_row item]\<rparr>)"
  by (simp add: handle_item_accepted[OF assms])

lemma handle_items_rejected:
  assumes "\<not> accepted item" "fields_have_text item" "set_benchmark item st = Inr st1"
  shows "handle_items (item # rest) st = handle_items rest st1"
proof -
  from assms(2) obtain d where "issue_dict_of item [] = Inr d"
    using issue_dict_of_succeeds by blast
  with assms(3) show ?thesis
    by (simp add: handle_item_rejected[OF assms(1)])
qed

lemma benchmark_of_nonempty: "benchmark_of b = Inr n \<Longrightarrow> n \<noteq> []"
  by (auto simp: benchmark_of_def split: option.splits)

lemma handle_item_name:
  assumes "handle_item item st = Inr st'"
  shows "\<exists>st1. set_benchmark item st = Inr st1 \<and> benchmark_name st' = benchmark_name st1"
proof -
  from handle_item_Inr[OF assms] obtain st1 where b: "set_benchmark item st = Inr st1"
    and c: "if accepted item
            then \<exists>n. dict_get (summary_dict st) (issue_row item ! 1) = Inr n \<and>
                   st' = st1\<lparr>summary_dict := dict_set (summary_dict st) (issue_row item ! 1) (n + 1),
                             issue_list := Some (issue_row item),
                             ip_issues := ip_issues st @ [issue_row item]\<rparr>
            else st' = st1"
    by blast
  from c have "benchmark_name st' = benchmark_name st1"
    by (auto split: if_splits)
  with b show ?thesis by blast
qed

lemma handle_item_name_kept:
  "benchmark_name st \<noteq> [] \<Longrightarrow> handle_item item st = Inr st' \<Longrightarrow>
     benchmark_name st' = benchmark_name st"
  using handle_item_name[of item st st'] by (auto simp: set_benchmark_idle)

lemma handle_items_name_kept:
  "benchmark_name st \<noteq> [] \<Longrightarrow> handle_items items st = Inr st' \<Longrightarrow>
     benchmark_name st' = benchmark_name st"
proof (induction items arbitrary: st)
  case Nil
  then show ?case by simp
next
  case (Cons item rest)
  from Cons.prems(2) obtain st2 where 1: "handle_item item st = Inr st2"
    and 2: "handle_items rest st2 = Inr st'"
    by (auto simp: bind_e_Inr_iff)
  from handle_item_name_kept[OF Cons.prems(1) 1] have n: "benchmark_name st2 = benchmark_name st" .
  with Cons.prems(1) have "benchmark_name st2 \<noteq> []" by simp
  from Cons.IH[OF this 2] n show ?case by simp
qed

lemma benchmark_entry_Cons:
  "benchmark_entry (item # rest) =
     (if accepted item then (case rest of [] \<Rightarrow> None | b # others \<Rightarrow> Some b)
      else benchmark_entry rest)"
  by (simp add: benchmark_entry_def split: list.splits)

lemma benchmark_name_of_items:
  assumes "handle_items items st = Inr st'" "ip_issues st = []" "benchmark_name st = []"
  shows "case benchmark_entry items of
           None \<Rightarrow> benchmark_name st' = []
         | Some b \<Rightarrow> benchmark_of b = Inr (benchmark_name st')"
  using assms
proof (induction items arbitrary: st)
  case Nil
  then show ?case by (simp add: benchmark_entry_def)
next
  case (Cons item rest)
  from Cons.prems(1) obtain st2 where 1: "handle_item item st = Inr st2"
    and 2: "handle_items rest st2 = Inr st'"
    by (auto simp: bind_e_Inr_iff)
  from Cons.prems(2) have idle: "set_benchmark item st = Inr st"
    by (simp add: set_benchmark_idle)
  show ?case
  proof (cases "accepted item")
    case False
    with handle_item_Inr[OF 1] idle have "st2 = st" by simp
    with Cons.IH[OF _ Cons.prems(2,3)] 2 False show ?thesis
      by (simp add: benchmark_entry_Cons)
  next
    case True
    with handle_item_Inr[OF 1] idle Cons.prems(2,3)
    have st2: "ip_issues st2 = [issue_row item]" "benchmark_name st2 = []"
      by auto
    show ?thesis
    proof (cases rest)
      case Nil
      with 2 st2 True show ?thesis
        by (simp add: benchmark_entry_Cons)
    next
      case (Cons b others)
      with 2 obtain st3 where 3: "handle_item b st2 = Inr st3"
        and 4: "handle_items others st3 = Inr st'"
        by (auto simp: bind_e_Inr_iff)
      from handle_item_name[OF 3] obtain st1 where sb: "set_benchmark b st2 = Inr st1"
        and n3: "benchmark_name st3 = benchmark_name st1"
        by blast
      from sb st2 have bo: "benchmark_of b = Inr (benchmark_name st1)"
        by (auto simp: set_benchmark_def bind_e_Inr_iff)
      then have "benchmark_name st3 \<noteq> []"
        using n3 benchmark_of_nonempty by simp
      from handle_items_name_kept[OF this 4] n3 bo True Cons show ?thesis
        by (simp add: benchmark_entry_Cons)
    qed
  qed
qed

text \<open>
  C2, amended. When \<open>handle_report\<close> returns, the benchmark name in the summary is
  built from the benchmark metadata of the entry that directly follows the first
  accepted entry in the record, whether or not that entry is itself accepted; when no
  entry is accepted, or the first accepted entry is the last entry of the record, the
  benchmark name is the empty string.
\<close>

theorem benchmark_from_entry_after_first_accepted:
  assumes "handle_report report = Inr ((issues, summary), printed)"
  shows "case benchmark_entry (report_items report) of
           None \<Rightarrow> summary ! 0 = S []
         | Some b \<Rightarrow> \<exists>n. benchmark_of b = Inr n \<and> summary ! 0 = S n"
proof -
  from assms obtain st where st: "handle_items (report_items report) hr_init = Inr st"
    and "summary_counts_of st = Inr summary"
    by (auto simp: handle_report_def bind_e_Inr_iff)
  then have s: "summary ! 0 = S (benchmark_name st)"
    by (auto simp: summary_counts_of_def bind_e_Inr_iff)
  from benchmark_name_of_items[OF st] s show ?thesis
    by (simp add: hr_init_def split: option.splits)
qed

lemma get_value_samples:
  "get_value ''info'' = ''info''" "get_value ''policy'' = ''policy''"
  "get_value ''actual'' = ''actual''" "get_value ''fix'' = ''fix''"
  "get_value ''L1'' = ''L1''" "get_value ''ref'' = ''ref''"
  "get_value ''c1'' = ''c1''" "get_value ''c2'' = ''c2''"
  "get_value ''PASSED'' = ''PASSED''" "get_value ''FAILED'' = ''FAILED''"
  "get_value ''WARNING'' = ''WARNING''" "get_value ''ERROR'' = ''ERROR''"
  by (rule get_value_clean, simp add: clean_def, simp)+

lemma issue_row_finding:
  "issue_row (finding n r b v) =
     [get_value n, get_value r, ''info'', ''policy'', ''actual'', ''fix'', ''L1'', ''ref'']"
  by (simp add: issue_row_def COMPLIANCE_TAGS_def item_field_def finding_def tag_defs
      get_value_samples)

lemma benchmark_of_finding: "benchmark_of (finding n r b v) = Inr (b @ '' v'' @ v)"
  by (simp add: benchmark_of_def item_find_def finding_def tag_defs)

lemma benchmark_of_other_entry: "benchmark_of (other_entry b v) = Inr (b @ '' v'' @ v)"
  by (simp add: benchmark_of_def item_find_def other_entry_def tag_defs)

lemma other_entry_has_text: "fields_have_text (other_entry b v)"
  by (simp add: fields_have_text_def other_entry_def COMPLIANCE_TAGS_def tag_defs)

lemma other_entry_not_accepted: "\<not> accepted (other_entry b v)"
proof -
  have "\<not> has_field (other_entry b v) result_tag"
    by (simp add: has_field_def other_entry_def tag_defs)
  moreover have "result_tag \<in> set COMPLIANCE_TAGS" "result_tag \<noteq> actual_value_tag"
    by (simp_all add: COMPLIANCE_TAGS_def tag_defs)
  ultimately show ?thesis
    unfolding accepted_iff by blast
qed

lemma handle_items_finding:
  assumes "dict_get (summary_dict st) (get_value r) = Inr k"
    and "set_benchmark (finding n r b v) st = Inr st1"
  shows "handle_items (finding n r b v # rest) st =
     handle_items rest
       (st1\<lparr>summary_dict := dict_set (summary_dict st) (get_value r) (k + 1),
            issue_list := Some (issue_row (finding n r b v)),
            ip_issues := ip_issues st @ [issue_row (finding n r b v)]\<rparr>)"
  using handle_items_accepted[OF finding_accepted assms(2), of k rest] assms(1)
  by (simp add: issue_row_finding)

lemma handle_items_other_entry:
  assumes "set_benchmark (other_entry b v) st = Inr st1"
  shows "handle_items (other_entry b v # rest) st = handle_items rest st1"
  using other_entry_not_accepted other_entry_has_text assms by (rule handle_items_rejected)

lemma one_finding_eval:
  "handle_report one_finding_report =
     Inr (([[''c1'', ''PASSED'', ''info'', ''policy'', ''actual'', ''fix'', ''L1'', ''ref'']],
           [S ''X v2'', N 1, N 0, N 0, N 0]), [])"
proof -
  let ?row = "[''c1'', ''PASSED'', ''info'', ''policy'', ''actual'', ''fix'', ''L1'', ''ref'']"
  let ?st1 = "hr_init\<lparr>summary_dict := [(''FAILED'', 0), (''PASSED'', 1), (''WARNING'', 0), (''ERROR'', 0)],
                issue_list := Some ?row, ip_issues := [?row]\<rparr>"
  have 1: "handle_items (finding ''c1'' ''PASSED'' ''A'' ''1'' # rest) hr_init = handle_items rest ?st1"
    for rest
    by (subst handle_items_finding[where k = 0 and ?st1.0 = hr_init])
       (simp_all add: get_value_samples hr_init_def dict_get_def set_benchmark_def dict_set_def
          issue_row_finding)
  have 2: "handle_items (other_entry ''X'' ''2'' # rest) ?st1
      = handle_items rest (?st1\<lparr>benchmark_name := ''X v2''\<rparr>)" for rest
    by (rule handle_items_other_entry)
       (simp add: set_benchmark_def hr_init_def benchmark_of_other_entry)
  show ?thesis
    by (simp add: handle_report_def one_finding_report_def 1 2 del: handle_items.simps(2))
       (simp add: summary_counts_of_def hr_init_def dict_get_def)
qed

lemma two_findings_eval:
  "handle_report two_findings_report =
     Inr (([[''c1'', ''PASSED'', ''info'', ''policy'', ''actual'', ''fix'', ''L1'', ''ref''],
            [''c2'', ''FAILED'', ''info'', ''policy'', ''actual'', ''fix'', ''L1'', ''ref'']],
           [S ''X v2'', N 1, N 1, N 0, N 0]), [])"
proof -
  let ?row = "[''c1'', ''PASSED'', ''info'', ''policy'', ''actual'', ''fix'', ''L1'', ''ref'']"
  let ?row2 = "[''c2'', ''FAILED'', ''info'', ''policy'', ''actual'', ''fix'', ''L1'', ''ref'']"
  let ?st1 = "hr_init\<lparr>summary_dict := [(''FAILED'', 0), (''PASSED'', 1), (''WARNING'', 0), (''ERROR'', 0)],
                issue_list := Some ?row, ip_issues := [?row]\<rparr>"
  let ?st2 = "?st1\<lparr>benchmark_name := ''X v2''\<rparr>"
  let ?st3 = "?st2\<lparr>summary_dict := [(''FAILED'', 1), (''PASSED'', 1), (''WARNING'', 0), (''ERROR'', 0)],
                issue_list := Some ?row2, ip_issues := [?row, ?row2]\<rparr>"
  have 1: "handle_items (finding ''c1'' ''PASSED'' ''A'' ''1'' # rest) hr_init = handle_items rest ?st1"
    for rest
    by (subst handle_items_finding[where k = 0 and ?st1.0 = hr_init])
       (simp_all add: get_value_samples hr_init_def dict_get_def set_benchmark_def dict_set_def
          issue_row_finding)
  have 2: "handle_items (other_entry ''X'' ''2'' # rest) ?st1 = handle_items rest ?st2" for rest
    by (rule handle_items_other_entry)
       (simp add: set_benchmark_def hr_init_def benchmark_of_other_entry)
  have 3: "handle_items (finding ''c2'' ''FAILED'' ''B'' ''3'' # rest) ?st2 = handle_items rest ?st3"
    for rest
    by (subst handle_items_finding[where k = 0 and ?st1.0 = ?st2])
       (simp_all add: get_value_samples hr_init_def dict_get_def set_benchmark_def dict_set_def
          issue_row_finding)
  show ?thesis
    by (simp add: handle_report_def two_findings_report_def 1 2 3 del: handle_items.simps(2))
       (simp add: summary_counts_of_def hr_init_def dict_get_def)
qed

text \<open>
  C2, as stated, fails. In the first record only one finding is accepted, yet the
  benchmark name is not empty; in the second the second accepted finding carries
  benchmark \<open>B v3\<close>, yet the summary holds \<open>X v2\<close>, taken from the entry between
  the two accepted findings.
\<close>

theorem benchmark_not_from_second_accepted:
  "handle_report one_finding_report =
     Inr (([[''c1'', ''PASSED'', ''info'', ''policy'', ''actual'', ''fix'', ''L1'', ''ref'']],
           [S ''X v2'', N 1, N 0, N 0, N 0]), []) \<and>
   handle_report two_findings_report =
     Inr (([[''c1'', ''PASSED'', ''info'', ''policy'', ''actual'', ''fix'', ''L1'', ''ref''],
            [''c2'', ''FAILED'', ''info'', ''policy'', ''actual'', ''fix'', ''L1'', ''ref'']],
           [S ''X v2'', N 1, N 1, N 0, N 0]), []) \<and>
   benchmark_of (finding ''c2'' ''FAILED'' ''B'' ''3'') = Inr ''B v3''"
  by (simp add: one_finding_eval two_findings_eval benchmark_of_finding)

theorem benchmark_from_entry_after_first_accepted_witness:
  "handle_report two_findings_report =
     Inr (([[''c1'', ''PASSED'', ''info'', ''policy'', ''actual'', ''fix'', ''L1'', ''ref''],
            [''c2'', ''FAILED'', ''info'', ''policy'', ''actual'', ''fix'', ''L1'', ''ref'']],
           [S ''X v2'', N 1, N 1, N 0, N 0]), []) \<and>
   benchmark_entry (report_items two_findings_report) = Some (other_entry ''X'' ''2'') \<and>
   (\<exists>n. benchmark_of (other_entry ''X'' ''2'') = Inr n \<and>
        [S ''X v2'', N 1, N 1, N 0, N 0] ! 0 = S n)"
proof -
  have e: "benchmark_entry (report_items two_findings_report) = Some (other_entry ''X'' ''2'')"
    by (simp add: two_findings_report_def benchmark_entry_Cons finding_accepted)
  from benchmark_from_entry_after_first_accepted[OF two_findings_eval] e two_findings_eval
  show ?thesis
    by simp
qed

subsection \<open>An element without text\<close>

lemma handle_item_no_text: "\<not> fields_have_text item \<Longrightarrow> handle_item item st = Inl AttributeError"
  by (simp add: handle_item_def issue_dict_of_fails)

lemma handle_items_no_text:
  "item \<in> set items \<Longrightarrow> \<not> fields_have_text item \<Longrightarrow> \<exists>err. handle_items items st = Inl err"
proof (induction items arbitrary: st)
  case Nil
  then show ?case by simp
next
  case (Cons x xs)
  show ?case
  proof (cases "handle_item x st")
    case (Inl e)
    then show ?thesis by simp
  next
    case (Inr st2)
    with Cons.prems have "x \<noteq> item"
      using handle_item_no_text[of item st] by auto
    with Cons.prems have "item \<in> set xs" by simp
    from Cons.IH[OF this Cons.prems(2), of st2] Inr show ?thesis by simp
  qed
qed

text \<open>
  C10. A recognized compliance element without text makes the iteration on its entry
  raise \<open>AttributeError\<close>; \<open>handle_report\<close> on a record that contains such an entry
  raises, and a run whose input file has such a record ends with an uncaught
  exception instead of dropping the entry.
\<close>

theorem empty_field_aborts:
  assumes "item \<in> set (report_items report)" "e \<in> set item"
    and "elem_tag e \<in> set COMPLIANCE_TAGS" "elem_text e = None"
  shows "handle_item item st = Inl AttributeError \<and>
         (\<exists>err. handle_report report = Inl err) \<and>
         (fs f = Parsed (report # others) \<longrightarrow> (\<exists>err. main fs (f # rest) wb = Crashed err))"
proof -
  from assms(2-4) have nt: "\<not> fields_have_text item"
    by (auto simp: fields_have_text_def)
  then have 1: "handle_item item st = Inl AttributeError"
    by (rule handle_item_no_text)
  from handle_items_no_text[OF assms(1) nt, of hr_init]
  obtain err where 2: "handle_report report = Inl err"
    by (auto simp: handle_report_def)
  then have "\<exists>err'. handle_hosts (report # others) main_init = Inl err'"
    by (cases "host_ip report") simp_all
  then have 3: "\<exists>err. main fs (f # rest) wb = Crashed err" if "fs f = Parsed (report # others)"
    using that by (auto simp: main_def)
  from 1 2 3 show ?thesis by blast
qed

theorem empty_field_aborts_witness:
  "[Element check_name_tag (Some ''c''), Element info_tag None] \<in> set (report_items empty_info_report) \<and>
   Element info_tag None \<in> set [Element check_name_tag (Some ''c''), Element info_tag None] \<and>
   elem_tag (Element info_tag None) \<in> set COMPLIANCE_TAGS \<and>
   elem_text (Element info_tag None) = None \<and>
   (\<exists>err. handle_report empty_info_report = Inl err) \<and>
   (\<exists>err. main (\<lambda>p. Parsed [empty_info_report]) [''scan.nessus''] ''out.xlsx'' = Crashed err)"
proof -
  let ?item = "[Element check_name_tag (Some ''c''), Element info_tag None]"
  have 1: "?item \<in> set (report_items empty_info_report)"
    by (simp add: empty_info_report_def)
  have 2: "Element info_tag None \<in> set ?item" by simp
  have 3: "elem_tag (Element info_tag None) \<in> set COMPLIANCE_TAGS"
    by (simp add: COMPLIANCE_TAGS_def)
  have 4: "elem_text (Element info_tag None) = None" by simp
  from empty_field_aborts[OF 1 2 3 4, of hr_init "\<lambda>p. Parsed [empty_info_report]" "''scan.nessus''" "[]" "[]" "''out.xlsx''"]
    1 2 3 4
  show ?thesis by simp
qed

subsection \<open>Iterations that raise\<close>

lemma handle_item_benchmark_raises:
  assumes "fields_have_text item" "set_benchmark item st = Inl e"
  shows "handle_item item st = Inl e"
proof -
  from assms(1) obtain d where "issue_dict_of item [] = Inr d"
    using issue_dict_of_succeeds by blast
  with assms(2) show ?thesis
    by (simp add: handle_item_def)
qed

lemma handle_item_counter_raises:
  assumes acc: "accepted item"
    and bench: "set_benchmark item st = Inr st1"
    and cnt: "dict_get (summary_dict st) (issue_row item ! 1) = Inl e"
  shows "handle_item item st = Inl e"
proof -
  from acc obtain d where d: "issue_dict_of item [] = Inr d"
    and full: "length (dict_keys (default_actual d)) = length COMPLIANCE_TAGS"
    by (auto simp: accepted_def split: sum.splits)
  from set_benchmark_only_name[OF bench]
  have same: "summary_dict st1 = summary_dict st"
    by simp
  show ?thesis
    using cnt
    by (simp add: handle_item_def d bench count_and_append_def full
        result_of_accepted[OF d full] same)
qed

lemma no_actual_entry_text: "fields_have_text no_actual_entry"
  by (simp add: fields_have_text_def no_actual_entry_def)

lemma no_actual_entry_absent: "\<not> has_field no_actual_entry actual_value_tag"
  by (simp add: has_field_def no_actual_entry_def tag_defs)

lemma no_actual_entry_accepted: "accepted no_actual_entry"
proof -
  have "has_field no_actual_entry t" if "t \<in> set COMPLIANCE_TAGS" "t \<noteq> actual_value_tag" for t
    using that by (auto simp: COMPLIANCE_TAGS_def has_field_def no_actual_entry_def)
  with no_actual_entry_text show ?thesis
    by (simp add: accepted_iff)
qed

lemma info_entry_text: "fields_have_text info_entry"
  by (simp add: fields_have_text_def info_entry_def)

lemma info_entry_absent: "\<not> has_field info_entry actual_value_tag"
  by (simp add: has_field_def info_entry_def tag_defs)

lemma info_entry_accepted: "accepted info_entry"
proof -
  have "has_field info_entry t" if "t \<in> set COMPLIANCE_TAGS" "t \<noteq> actual_value_tag" for t
    using that by (auto simp: COMPLIANCE_TAGS_def has_field_def info_entry_def)
  with info_entry_text show ?thesis
    by (simp add: accepted_iff)
qed

lemma no_metadata_eval: "handle_report no_metadata_report = Inl AttributeError"
proof -
  let ?row = "[''c1'', ''PASSED'', ''info'', ''policy'', ''actual'', ''fix'', ''L1'', ''ref'']"
  let ?st1 = "hr_init\<lparr>summary_dict := [(''FAILED'', 0), (''PASSED'', 1), (''WARNING'', 0), (''ERROR'', 0)],
                issue_list := Some ?row, ip_issues := [?row]\<rparr>"
  have 1: "handle_items (finding ''c1'' ''PASSED'' ''A'' ''1'' # rest) hr_init = handle_items rest ?st1"
    for rest
    by (subst handle_items_finding[where k = 0 and ?st1.0 = hr_init])
       (simp_all add: get_value_samples hr_init_def dict_get_def set_benchmark_def dict_set_def
          issue_row_finding)
  have "benchmark_of no_actual_entry = Inl AttributeError"
    by (simp add: benchmark_of_def item_find_def no_actual_entry_def tag_defs)
  then have "set_benchmark no_actual_entry ?st1 = Inl AttributeError"
    by (simp add: set_benchmark_def hr_init_def)
  with no_actual_entry_text have 2: "handle_item no_actual_entry ?st1 = Inl AttributeError"
    by (rule handle_item_benchmark_raises)
  show ?thesis
    by (simp add: handle_report_def no_metadata_report_def 1 del: handle_items.simps(2))
       (simp add: 2)
qed

lemma info_result_eval: "handle_report info_result_report = Inl KeyError"
proof -
  have "get_value ''INFO'' = ''INFO''"
    by (rule get_value_clean) (simp_all add: clean_def)
  then have "item_field info_entry result_tag = Some ''INFO''"
    by (simp add: item_field_def info_entry_def tag_defs)
  then have r: "issue_row info_entry ! 1 = ''INFO''"
    by (rule issue_row_result)
  have b: "set_benchmark info_entry hr_init = Inr hr_init"
    by (simp add: set_benchmark_def hr_init_def)
  have "dict_get (summary_dict hr_init) ''INFO'' = Inl KeyError"
    by (simp add: hr_init_def dict_get_def)
  then have "dict_get (summary_dict hr_init) (issue_row info_entry ! 1) = Inl KeyError"
    by (simp only: r)
  with info_entry_accepted b have "handle_item info_entry hr_init = Inl KeyError"
    by (rule handle_item_counter_raises)
  then show ?thesis
    by (simp add: handle_report_def info_result_report_def)
qed

text \<open>
  C6, as stated, fails. Both entries have the seven other recognized fields and no
  actual value and pass the test of line 161, yet neither is accepted into the
  output: the first directly follows the first accepted finding of its record and
  has no benchmark metadata, so the lookup of line 151 raises; the second has a
  result for which the summary has no counter, so line 162 raises.
\<close>

theorem missing_actual_value_not_always_accepted:
  "accepted no_actual_entry \<and> \<not> has_field no_actual_entry actual_value_tag \<and>
   handle_report no_metadata_report = Inl AttributeError \<and>
   accepted info_entry \<and> \<not> has_field info_entry actual_value_tag \<and>
   handle_report info_result_report = Inl KeyError"
  by (simp add: no_actual_entry_accepted no_actual_entry_absent no_metadata_eval
      info_entry_accepted info_entry_absent info_result_eval)

section \<open>Properties of the main program\<close>

subsection \<open>The loop over the input files\<close>

lemma handle_hosts_Cons_Inr:
  assumes "handle_hosts (r # rs) st = Inr st'"
  shows "\<exists>a res summ out. host_ip r = Some a \<and> handle_report r = Inr ((res, summ), out) \<and>
           handle_hosts rs
             (st\<lparr>stdout := stdout st @ [Line (''Extracting issues for IP '' @ ip_str a)] @ out,
                 ip_issues_dict := dict_set (ip_issues_dict st) a res,
                 summary_dict_all := dict_set (summary_dict_all st) a summ\<rparr>) = Inr st'"
proof (cases "host_ip r")
  case None
  with assms show ?thesis by simp
next
  case (Some a)
  with assms obtain x where x: "handle_report r = Inr x"
    by (auto simp: Let_def bind_e_Inr_iff)
  obtain res summ out where "x = ((res, summ), out)"
    by (metis prod.exhaust)
  with assms Some x show ?thesis
    by (simp add: Let_def)
qed

lemma handle_hosts_append:
  "handle_hosts (xs @ ys) st = bind_e (handle_hosts xs st) (handle_hosts ys)"
proof (induction xs arbitrary: st)
  case Nil
  then show ?case by simp
next
  case (Cons r rs)
  show ?case
  proof (cases "host_ip r")
    case None
    then show ?thesis by simp
  next
    case (Some a)
    show ?thesis
    proof (cases "handle_report r")
      case (Inl e)
      with Some show ?thesis by (simp add: Let_def)
    next
      case (Inr x)
      with Some Cons.IH show ?thesis
        by (simp add: Let_def split: prod.splits)
    qed
  qed
qed

lemma handle_hosts_other_hosts:
  "handle_hosts rs st = Inr st' \<Longrightarrow> \<forall>r\<in>set rs. host_ip r \<noteq> Some a \<Longrightarrow>
     map_of (summary_dict_all st') a = map_of (summary_dict_all st) a \<and>
     map_of (ip_issues_dict st') a = map_of (ip_issues_dict st) a"
proof (induction rs arbitrary: st)
  case Nil
  then show ?case by simp
next
  case (Cons r rs)
  from handle_hosts_Cons_Inr[OF Cons.prems(1)] obtain b res summ out
    where b: "host_ip r = Some b"
      and h: "handle_hosts rs
             (st\<lparr>stdout := stdout st @ [Line (''Extracting issues for IP '' @ ip_str b)] @ out,
                 ip_issues_dict := dict_set (ip_issues_dict st) b res,
                 summary_dict_all := dict_set (summary_dict_all st) b summ\<rparr>) = Inr st'"
    by blast
  from b Cons.prems(2) have "b \<noteq> a" by auto
  moreover from Cons.prems(2) have "\<forall>r\<in>set rs. host_ip r \<noteq> Some a" by simp
  from Cons.IH[OF h this] have
    "map_of (summary_dict_all st') a = map_of (dict_set (summary_dict_all st) b summ) a"
    "map_of (ip_issues_dict st') a = map_of (dict_set (ip_issues_dict st) b res) a"
    by simp_all
  ultimately show ?case
    by (simp add: map_of_dict_set)
qed

lemma handle_hosts_distinct:
  "handle_hosts rs st = Inr st' \<Longrightarrow>
     distinct (dict_keys (summary_dict_all st)) \<Longrightarrow> distinct (dict_keys (ip_issues_dict st)) \<Longrightarrow>
     distinct (dict_keys (summary_dict_all st')) \<and> distinct (dict_keys (ip_issues_dict st'))"
proof (induction rs arbitrary: st)
  case Nil
  then show ?case by simp
next
  case (Cons r rs)
  from handle_hosts_Cons_Inr[OF Cons.prems(1)] obtain b res summ out
    where h: "handle_hosts rs
             (st\<lparr>stdout := stdout st @ [Line (''Extracting issues for IP '' @ ip_str b)] @ out,
                 ip_issues_dict := dict_set (ip_issues_dict st) b res,
                 summary_dict_all := dict_set (summary_dict_all st) b summ\<rparr>) = Inr st'"
    by blast
  show ?case
    by (rule Cons.IH[OF h]) (simp_all add: dict_keys_distinct Cons.prems)
qed

lemma scan_files_reports:
  "scan_files fs files st = Inr st' \<Longrightarrow> handle_hosts (all_reports fs files) st = Inr st'"
proof (induction files arbitrary: st)
  case Nil
  then show ?case by (simp add: all_reports_def)
next
  case (Cons f files)
  from Cons.prems obtain reports st2 where p: "fs f = Parsed reports"
    and h: "handle_hosts reports st = Inr st2" and s: "scan_files fs files st2 = Inr st'"
    by (auto split: parse_result.splits sum.splits)
  from p have "all_reports fs (f # files) = reports @ all_reports fs files"
    by (simp add: all_reports_def)
  with h Cons.IH[OF s] show ?case
    by (simp add: handle_hosts_append)
qed

text \<open>
  C9. When a host address occurs in several host records of the input files, the two
  dictionaries hold for it, after all files have been processed, exactly what
  \<open>handle_report\<close> returned for the last of those records: the later file's summary
  and findings replace the earlier file's, and the address is a key only once.
\<close>

theorem later_file_replaces_host:
  assumes "scan_files fs files main_init = Inr st"
    and "all_reports fs files = before @ report # after"
    and "host_ip report = Some a"
    and "\<forall>r\<in>set after. host_ip r \<noteq> Some a"
  shows "\<exists>res summ out. handle_report report = Inr ((res, summ), out) \<and>
           dict_get (summary_dict_all st) a = Inr summ \<and>
           dict_get (ip_issues_dict st) a = Inr res \<and>
           distinct (dict_keys (summary_dict_all st)) \<and>
           distinct (dict_keys (ip_issues_dict st))"
proof -
  from scan_files_reports[OF assms(1)] assms(2)
  have "bind_e (handle_hosts before main_init) (handle_hosts (report # after)) = Inr st"
    by (simp add: handle_hosts_append)
  then obtain st1 where "handle_hosts (report # after) st1 = Inr st"
    by (auto simp: bind_e_Inr_iff)
  from handle_hosts_Cons_Inr[OF this] assms(3) obtain res summ out
    where r: "handle_report report = Inr ((res, summ), out)"
      and h: "handle_hosts after
             (st1\<lparr>stdout := stdout st1 @ [Line (''Extracting issues for IP '' @ ip_str a)] @ out,
                 ip_issues_dict := dict_set (ip_issues_dict st1) a res,
                 summary_dict_all := dict_set (summary_dict_all st1) a summ\<rparr>) = Inr st"
    by auto
  from handle_hosts_other_hosts[OF h assms(4)]
  have "map_of (summary_dict_all st) a = Some summ" "map_of (ip_issues_dict st) a = Some res"
    by (simp_all add: map_of_dict_set)
  then have g: "dict_get (summary_dict_all st) a = Inr summ" "dict_get (ip_issues_dict st) a = Inr res"
    by (simp_all add: dict_get_Inr_iff)
  from handle_hosts_distinct[OF scan_files_reports[OF assms(1)]]
  have "distinct (dict_keys (summary_dict_all st)) \<and> distinct (dict_keys (ip_issues_dict st))"
    by (simp add: main_init_def dict_keys_def)
  with r g show ?thesis by blast
qed

lemma scan_files_append:
  "scan_files fs (xs @ ys) st =
     (case scan_files fs xs st of Inl out \<Rightarrow> Inl out | Inr st' \<Rightarrow> scan_files fs ys st')"
  by (induction xs arbitrary: st) (auto split: parse_result.splits sum.splits)

lemma scan_files_unreadable:
  "fs f = IOError \<Longrightarrow>
     scan_files fs (f # post) st = Inl (Exited (stdout st @ [Line (''Could not find file \"'' @ f @ ''\"'')]))"
  by simp

lemma scan_files_never_Finished: "scan_files fs files st \<noteq> Inl (Finished wb out)"
  by (induction files arbitrary: st) (auto split: parse_result.splits sum.splits)

subsection \<open>Runs with an unreadable file\<close>

lemma handle_item_printed:
  assumes "handle_item item st = Inr st'"
  shows "hr_printed st' = hr_printed st"
proof -
  from handle_item_Inr[OF assms] obtain st1 where b: "set_benchmark item st = Inr st1"
    and c: "if accepted item
            then \<exists>n. dict_get (summary_dict st) (issue_row item ! 1) = Inr n \<and>
                   st' = st1\<lparr>summary_dict := dict_set (summary_dict st) (issue_row item ! 1) (n + 1),
                             issue_list := Some (issue_row item),
                             ip_issues := ip_issues st @ [issue_row item]\<rparr>
            else st' = st1"
    by blast
  from c have "hr_printed st' = hr_printed st1"
    by (auto split: if_splits)
  with set_benchmark_only_name[OF b] show ?thesis by simp
qed

lemma handle_items_printed:
  "handle_items items st = Inr st' \<Longrightarrow> hr_printed st' = hr_printed st"
proof (induction items arbitrary: st)
  case Nil
  then show ?case by simp
next
  case (Cons item rest)
  from Cons.prems obtain st2 where 1: "handle_item item st = Inr st2"
    and 2: "handle_items rest st2 = Inr st'"
    by (auto simp: bind_e_Inr_iff)
  from Cons.IH[OF 2] handle_item_printed[OF 1] show ?case by simp
qed

lemma handle_report_prints_nothing:
  assumes "handle_report report = Inr (x, printed)"
  shows "printed = []"
proof -
  from assms obtain st where "handle_items (report_items report) hr_init = Inr st"
    and "printed = hr_printed st"
    by (auto simp: handle_report_def bind_e_Inr_iff)
  with handle_items_printed[of "report_items report" hr_init st] show ?thesis
    by (simp add: hr_init_def)
qed

lemma handle_hosts_progress:
  assumes "\<forall>r\<in>set rs. host_ip r \<noteq> None \<and> (\<exists>x. handle_report r = Inr x)"
  shows "\<exists>st'. handle_hosts rs st = Inr st' \<and> stdout st' = stdout st @ map progress_line rs"
  using assms
proof (induction rs arbitrary: st)
  case Nil
  then show ?case by simp
next
  case (Cons r rs)
  from Cons.prems obtain a x where a: "host_ip r = Some a" and x: "handle_report r = Inr x"
    by auto
  obtain res summ printed where xs: "x = ((res, summ), printed)"
    by (metis prod.exhaust)
  with x have "printed = []"
    using handle_report_prints_nothing by blast
  with x xs have hr: "handle_report r = Inr ((res, summ), [])" by simp
  let ?st = "st\<lparr>stdout := stdout st @ [progress_line r],
                 ip_issues_dict := dict_set (ip_issues_dict st) a res,
                 summary_dict_all := dict_set (summary_dict_all st) a summ\<rparr>"
  from Cons.prems have "\<forall>r\<in>set rs. host_ip r \<noteq> None \<and> (\<exists>x. handle_report r = Inr x)"
    by simp
  from Cons.IH[OF this, of ?st] obtain st' where "handle_hosts rs ?st = Inr st'"
    and "stdout st' = stdout ?st @ map progress_line rs"
    by blast
  with a hr show ?case
    by (simp add: Let_def progress_line_def)
qed

lemma scan_files_readable:
  assumes "\<forall>p\<in>set files. \<exists>reports. fs p = Parsed reports"
  shows "scan_files fs files st =
     (case handle_hosts (all_reports fs files) st of Inl e \<Rightarrow> Inl (Crashed e) | Inr st' \<Rightarrow> Inr st')"
  using assms
proof (induction files arbitrary: st)
  case Nil
  then show ?case by (simp add: all_reports_def)
next
  case (Cons f files)
  from Cons.prems obtain reports where p: "fs f = Parsed reports"
    by auto
  then have a: "all_reports fs (f # files) = reports @ all_reports fs files"
    by (simp add: all_reports_def)
  from Cons.prems have "\<forall>p\<in>set files. \<exists>reports. fs p = Parsed reports"
    by simp
  note ih = Cons.IH[OF this]
  show ?case
  proof (cases "handle_hosts reports st")
    case (Inl e)
    with p a show ?thesis
      by (simp add: handle_hosts_append)
  next
    case (Inr st2)
    with p a ih[of st2] show ?thesis
      by (simp add: handle_hosts_append)
  qed
qed

text \<open>
  C5, amended. When an input path cannot be read, no workbook is written, whatever
  the other paths are, and the paths listed after it play no part in the run. When it
  is the first path listed, the run prints the diagnostic that names it and ends.
  When every file listed before it is parsed and every host record of those files
  has an address and is extracted without an exception, the run prints the progress
  lines of those records, then the diagnostic that names the unreadable path, and
  ends.
\<close>

theorem unreadable_file_aborts:
  assumes "fs f = IOError"
  shows "written (main fs (pre @ f # post) wb) = None \<and>
         main fs (pre @ f # post) wb = main fs (pre @ [f]) wb \<and>
         main fs (f # post) wb = Exited [Line (''Could not find file \"'' @ f @ ''\"'')] \<and>
         ((\<forall>p\<in>set pre. \<exists>reports. fs p = Parsed reports) \<and>
          (\<forall>r\<in>set (all_reports fs pre). host_ip r \<noteq> None \<and> (\<exists>x. handle_report r = Inr x)) \<longrightarrow>
            main fs (pre @ f # post) wb =
              Exited (map progress_line (all_reports fs pre) @
                      [Line (''Could not find file \"'' @ f @ ''\"'')]))"
proof -
  have s: "scan_files fs (pre @ f # rest) main_init =
      (case scan_files fs pre main_init of
         Inl out \<Rightarrow> Inl out
       | Inr st \<Rightarrow> Inl (Exited (stdout st @ [Line (''Could not find file \"'' @ f @ ''\"'')])))" for rest
    using assms by (simp add: scan_files_append split: sum.splits)
  have 2: "main fs (pre @ f # post) wb = main fs (pre @ [f]) wb"
    by (simp only: main_def s)
  have 3: "main fs (f # post) wb = Exited [Line (''Could not find file \"'' @ f @ ''\"'')]"
    using assms by (simp add: main_def main_init_def)
  have 4: "main fs (pre @ f # post) wb =
      Exited (map progress_line (all_reports fs pre) @ [Line (''Could not find file \"'' @ f @ ''\"'')])"
    if r: "\<forall>p\<in>set pre. \<exists>reports. fs p = Parsed reports"
      and h: "\<forall>r\<in>set (all_reports fs pre). host_ip r \<noteq> None \<and> (\<exists>x. handle_report r = Inr x)"
  proof -
    from handle_hosts_progress[OF h, of main_init] obtain st
      where "handle_hosts (all_reports fs pre) main_init = Inr st"
        and o: "stdout st = map progress_line (all_reports fs pre)"
      by (auto simp: main_init_def)
    with scan_files_readable[OF r, of main_init] have "scan_files fs pre main_init = Inr st"
      by simp
    with o show ?thesis
      by (simp add: main_def s)
  qed
  have 1: "written (main fs (pre @ f # post) wb) = None"
  proof (cases "scan_files fs pre main_init")
    case (Inl out)
    then have "main fs (pre @ f # post) wb = out"
      by (simp add: main_def s)
    moreover from Inl have "\<not> (\<exists>w l. out = Finished w l)"
      using scan_files_never_Finished[of fs pre main_init] by auto
    ultimately show ?thesis
      by (cases out) (auto simp: written_def)
  next
    case (Inr st)
    then have "main fs (pre @ f # post) wb =
        Exited (stdout st @ [Line (''Could not find file \"'' @ f @ ''\"'')])"
      by (simp add: main_def s)
    then show ?thesis
      by (simp add: written_def)
  qed
  from 1 2 3 4 show ?thesis by blast
qed

lemma rescan_eval:
  "handle_report rescan_report =
     Inr (([[''c2'', ''FAILED'', ''info'', ''policy'', ''actual'', ''fix'', ''L1'', ''ref'']],
           [S [], N 0, N 1, N 0, N 0]), [])"
proof -
  let ?row = "[''c2'', ''FAILED'', ''info'', ''policy'', ''actual'', ''fix'', ''L1'', ''ref'']"
  let ?st1 = "hr_init\<lparr>summary_dict := [(''FAILED'', 1), (''PASSED'', 0), (''WARNING'', 0), (''ERROR'', 0)],
                issue_list := Some ?row, ip_issues := [?row]\<rparr>"
  have 1: "handle_items (finding ''c2'' ''FAILED'' ''B'' ''3'' # rest) hr_init = handle_items rest ?st1"
    for rest
    by (subst handle_items_finding[where k = 0 and ?st1.0 = hr_init])
       (simp_all add: get_value_samples hr_init_def dict_get_def set_benchmark_def dict_set_def
          issue_row_finding)
  show ?thesis
    by (simp add: handle_report_def rescan_report_def 1 del: handle_items.simps(2))
       (simp add: summary_counts_of_def hr_init_def dict_get_def)
qed

lemma error_eval:
  "handle_report error_report =
     Inr (([[''c1'', ''PASSED'', ''info'', ''policy'', ''actual'', ''fix'', ''L1'', ''ref''],
            [''c2'', ''ERROR'', ''info'', ''policy'', ''actual'', ''fix'', ''L1'', ''ref'']],
           [S ''A v1'', N 1, N 0, N 0, N 1]), [])"
proof -
  let ?row = "[''c1'', ''PASSED'', ''info'', ''policy'', ''actual'', ''fix'', ''L1'', ''ref'']"
  let ?row2 = "[''c2'', ''ERROR'', ''info'', ''policy'', ''actual'', ''fix'', ''L1'', ''ref'']"
  let ?st1 = "hr_init\<lparr>summary_dict := [(''FAILED'', 0), (''PASSED'', 1), (''WARNING'', 0), (''ERROR'', 0)],
                issue_list := Some ?row, ip_issues := [?row]\<rparr>"
  let ?st2 = "?st1\<lparr>benchmark_name := ''A v1''\<rparr>"
  let ?st3 = "?st2\<lparr>summary_dict := [(''FAILED'', 0), (''PASSED'', 1), (''WARNING'', 0), (''ERROR'', 1)],
                issue_list := Some ?row2, ip_issues := [?row, ?row2]\<rparr>"
  have 1: "handle_items (finding ''c1'' ''PASSED'' ''A'' ''1'' # rest) hr_init = handle_items rest ?st1"
    for rest
    by (subst handle_items_finding[where k = 0 and ?st1.0 = hr_init])
       (simp_all add: get_value_samples hr_init_def dict_get_def set_benchmark_def dict_set_def
          issue_row_finding)
  have 2: "handle_items (finding ''c2'' ''ERROR'' ''A'' ''1'' # rest) ?st1 = handle_items rest ?st3"
    for rest
    by (subst handle_items_finding[where k = 0 and ?st1.0 = ?st2])
       (simp_all add: get_value_samples hr_init_def dict_get_def set_benchmark_def dict_set_def
          issue_row_finding benchmark_of_finding)
  show ?thesis
    by (simp add: handle_report_def error_report_def 1 2 del: handle_items.simps(2))
       (simp add: summary_counts_of_def hr_init_def dict_get_def)
qed

lemma scan_both_files:
  "scan_files sample_fs [''a.nessus'', ''b.nessus''] main_init =
     Inr \<lparr>summary_dict_all = [(Some ''10.0.0.1'', [S [], N 0, N 1, N 0, N 0])],
          ip_issues_dict = [(Some ''10.0.0.1'',
             [[''c2'', ''FAILED'', ''info'', ''policy'', ''actual'', ''fix'', ''L1'', ''ref'']])],
          stdout = [Line ''Extracting issues for IP 10.0.0.1'',
                    Line ''Extracting issues for IP 10.0.0.1'']\<rparr>"
proof -
  have "host_ip one_finding_report = Some (Some ''10.0.0.1'')"
    "host_ip rescan_report = Some (Some ''10.0.0.1'')"
    by (simp_all add: one_finding_report_def rescan_report_def)
  then show ?thesis
    by (simp add: sample_fs_def one_finding_eval rescan_eval main_init_def dict_set_def ip_str_def)
qed

lemma empty_info_eval: "handle_report empty_info_report = Inl AttributeError"
proof -
  have "\<not> fields_have_text [Element check_name_tag (Some ''c''), Element info_tag None]"
    by (simp add: fields_have_text_def COMPLIANCE_TAGS_def)
  then have "handle_item [Element check_name_tag (Some ''c''), Element info_tag None] hr_init
      = Inl AttributeError"
    by (rule handle_item_no_text)
  then show ?thesis
    by (simp add: handle_report_def empty_info_report_def)
qed

text \<open>
  C5, as stated, fails. With two unreadable paths only the first is named: the run
  has ended before the second is tried. And when an earlier file makes the run end
  with an uncaught exception, the unreadable path behind it is never tried either,
  so no diagnostic names it.
\<close>

theorem unreadable_file_not_always_named:
  "sample_fs ''other.nessus'' = IOError \<and> sample_fs ''missing.nessus'' = IOError \<and>
   main sample_fs [''other.nessus'', ''missing.nessus''] ''out.xlsx'' =
     Exited [Line ''Could not find file \"other.nessus\"''] \<and>
   crashing_fs ''missing.nessus'' = IOError \<and>
   main crashing_fs [''a.nessus'', ''missing.nessus''] ''out.xlsx'' = Crashed AttributeError"
proof -
  have 1: "sample_fs ''other.nessus'' = IOError" "sample_fs ''missing.nessus'' = IOError"
    by (simp_all add: sample_fs_def)
  then have 2: "main sample_fs [''other.nessus'', ''missing.nessus''] ''out.xlsx'' =
     Exited [Line ''Could not find file \"other.nessus\"'']"
    by (simp add: main_def main_init_def)
  have 3: "crashing_fs ''missing.nessus'' = IOError"
    by (simp add: crashing_fs_def)
  have "host_ip empty_info_report = Some (Some ''10.0.0.2'')"
    by (simp add: empty_info_report_def)
  then have "handle_hosts [empty_info_report] main_init = Inl AttributeError"
    by (simp add: empty_info_eval)
  then have 4: "main crashing_fs [''a.nessus'', ''missing.nessus''] ''out.xlsx'' = Crashed AttributeError"
    by (simp add: main_def crashing_fs_def)
  from 1 2 3 4 show ?thesis by blast
qed

theorem unreadable_file_aborts_witness:
  "sample_fs ''missing.nessus'' = IOError \<and>
   sample_fs ''a.nessus'' = Parsed [one_finding_report] \<and>
   host_ip one_finding_report = Some (Some ''10.0.0.1'') \<and>
   written (main sample_fs [''a.nessus'', ''missing.nessus'', ''b.nessus''] ''out.xlsx'') = None \<and>
   main sample_fs [''a.nessus'', ''missing.nessus'', ''b.nessus''] ''out.xlsx'' =
     Exited [Line ''Extracting issues for IP 10.0.0.1'',
             Line ''Could not find file \"missing.nessus\"''] \<and>
   sample_fs ''other.nessus'' = IOError \<and>
   main sample_fs [''other.nessus'', ''b.nessus''] ''out.xlsx'' =
     Exited [Line ''Could not find file \"other.nessus\"'']"
proof -
  have 1: "sample_fs ''missing.nessus'' = IOError" and o1: "sample_fs ''other.nessus'' = IOError"
    by (simp_all add: sample_fs_def)
  have a: "sample_fs ''a.nessus'' = Parsed [one_finding_report]"
    by (simp add: sample_fs_def)
  have ip: "host_ip one_finding_report = Some (Some ''10.0.0.1'')"
    by (simp add: one_finding_report_def)
  have ar: "all_reports sample_fs [''a.nessus''] = [one_finding_report]"
    by (simp add: all_reports_def a)
  have r: "\<forall>p\<in>set [''a.nessus'']. \<exists>reports. sample_fs p = Parsed reports"
    by (simp add: a)
  have h: "\<forall>r\<in>set (all_reports sample_fs [''a.nessus'']).
             host_ip r \<noteq> None \<and> (\<exists>x. handle_report r = Inr x)"
    by (simp add: ar ip one_finding_eval)
  note t = unreadable_file_aborts[where fs = sample_fs and f = "''missing.nessus''"
      and pre = "[''a.nessus'']" and post = "[''b.nessus'']" and wb = "''out.xlsx''", OF 1]
  from t have "written (main sample_fs ([''a.nessus''] @ ''missing.nessus'' # [''b.nessus'']) ''out.xlsx'')
      = None"
    by (rule conjunct1)
  then have 2: "written (main sample_fs [''a.nessus'', ''missing.nessus'', ''b.nessus''] ''out.xlsx'')
      = None"
    by simp
  from t r h
  have "main sample_fs ([''a.nessus''] @ ''missing.nessus'' # [''b.nessus'']) ''out.xlsx'' =
      Exited (map progress_line (all_reports sample_fs [''a.nessus'']) @
              [Line (''Could not find file \"'' @ ''missing.nessus'' @ ''\"'')])"
    by blast
  then have 3: "main sample_fs [''a.nessus'', ''missing.nessus'', ''b.nessus''] ''out.xlsx'' =
     Exited [Line ''Extracting issues for IP 10.0.0.1'',
             Line ''Could not find file \"missing.nessus\"'']"
    by (simp add: ar progress_line_def ip ip_str_def)
  note t' = unreadable_file_aborts[where fs = sample_fs and f = "''other.nessus''"
      and pre = "[]" and post = "[''b.nessus'']" and wb = "''out.xlsx''", OF o1]
  from t' have "main sample_fs (''other.nessus'' # [''b.nessus'']) ''out.xlsx'' =
      Exited [Line (''Could not find file \"'' @ ''other.nessus'' @ ''\"'')]"
    by blast
  then have 4: "main sample_fs [''other.nessus'', ''b.nessus''] ''out.xlsx'' =
     Exited [Line ''Could not find file \"other.nessus\"'']"
    by simp
  from 1 a ip 2 3 o1 4 show ?thesis by blast
qed

theorem later_file_replaces_host_witness:
  "all_reports sample_fs [''a.nessus'', ''b.nessus''] = [one_finding_report] @ rescan_report # [] \<and>
   host_ip one_finding_report = Some (Some ''10.0.0.1'') \<and>
   host_ip rescan_report = Some (Some ''10.0.0.1'') \<and>
   (\<exists>st. scan_files sample_fs [''a.nessus'', ''b.nessus''] main_init = Inr st \<and>
      dict_get (summary_dict_all st) (Some ''10.0.0.1'') = Inr [S [], N 0, N 1, N 0, N 0] \<and>
      dict_get (ip_issues_dict st) (Some ''10.0.0.1'') =
        Inr [[''c2'', ''FAILED'', ''info'', ''policy'', ''actual'', ''fix'', ''L1'', ''ref'']])"
proof -
  have 1: "all_reports sample_fs [''a.nessus'', ''b.nessus''] = [one_finding_report] @ rescan_report # []"
    by (simp add: all_reports_def sample_fs_def)
  have 2: "host_ip rescan_report = Some (Some ''10.0.0.1'')"
    and 3: "host_ip one_finding_report = Some (Some ''10.0.0.1'')"
    by (simp_all add: one_finding_report_def rescan_report_def)
  have 4: "\<forall>r\<in>set []. host_ip r \<noteq> Some (Some ''10.0.0.1'')"
    by simp
  from later_file_replaces_host[OF scan_both_files 1 2 4] rescan_eval
  have "dict_get (summary_dict_all
          \<lparr>summary_dict_all = [(Some ''10.0.0.1'', [S [], N 0, N 1, N 0, N 0])],
           ip_issues_dict = [(Some ''10.0.0.1'',
             [[''c2'', ''FAILED'', ''info'', ''policy'', ''actual'', ''fix'', ''L1'', ''ref'']])],
           stdout = [Line ''Extracting issues for IP 10.0.0.1'',
                     Line ''Extracting issues for IP 10.0.0.1'']\<rparr>) (Some ''10.0.0.1'')
        = Inr [S [], N 0, N 1, N 0, N 0] \<and>
        dict_get (ip_issues_dict
          \<lparr>summary_dict_all = [(Some ''10.0.0.1'', [S [], N 0, N 1, N 0, N 0])],
           ip_issues_dict = [(Some ''10.0.0.1'',
             [[''c2'', ''FAILED'', ''info'', ''policy'', ''actual'', ''fix'', ''L1'', ''ref'']])],
           stdout = [Line ''Extracting issues for IP 10.0.0.1'',
                     Line ''Extracting issues for IP 10.0.0.1'']\<rparr>) (Some ''10.0.0.1'')
        = Inr [[''c2'', ''FAILED'', ''info'', ''policy'', ''actual'', ''fix'', ''L1'', ''ref'']]"
    by auto
  with scan_both_files 1 2 3 show ?thesis
    by blast
qed

lemma get_total_counts: "get_total [S b, N p, N f, N w, N e] = Inr (N (p + f + (w + e)))"
  by (simp add: get_total_def list_get_def)

text \<open>
  C1. The Total of a host is meant to be passed + failed + warning, without the
  ERROR count (so says the docstring of \<open>get_total\<close> too). The code adds the ERROR
  count: for a host with one PASSED and one ERROR finding the Summary row shows
  Passed 1, Failed 0, Warning 0 and Total 2.
\<close>

theorem total_includes_error_count:
  "map_option (\<lambda>wb. map (summary_cell wb 1) [3, 4, 5, 6])
     (written (main (\<lambda>p. Parsed [error_report]) [''scan.nessus''] ''out.xlsx''))
   = Some [Some (N 1), Some (N 0), Some (N 0), Some (N 2)]"
proof -
  have "host_ip error_report = Some (Some ''10.0.0.3'')"
    by (simp add: error_report_def)
  then have "scan_files (\<lambda>p. Parsed [error_report]) [''scan.nessus''] main_init =
     Inr \<lparr>summary_dict_all = [(Some ''10.0.0.3'', [S ''A v1'', N 1, N 0, N 0, N 1])],
          ip_issues_dict = [(Some ''10.0.0.3'',
             [[''c1'', ''PASSED'', ''info'', ''policy'', ''actual'', ''fix'', ''L1'', ''ref''],
              [''c2'', ''ERROR'', ''info'', ''policy'', ''actual'', ''fix'', ''L1'', ''ref'']])],
          stdout = [Line ''Extracting issues for IP 10.0.0.3'']\<rparr>"
    by (simp add: error_eval main_init_def dict_set_def ip_str_def)
  then show ?thesis
    by (simp add: main_def write_excel_report_def dict_keys_def dict_get_def get_total_counts
        sheet_write_def written_def summary_cell_def)
qed

end
